theory Spec2Isabelle
  imports Complex_Main "HOL-Library.Sublist" "HOL-Library.Multiset"
begin

section \<open>The usage dashboard worker (src/main.ts)\<close>

text \<open>
  A shallow embedding of the aggregation pipeline of \<^verbatim>\<open>src/main.ts\<close>: key masking, date
  formatting, the batch scheduler, the single-credential fetch with its retry on HTTP 401,
  the aggregation of the per-key results and the cached report read.

  Conventions of the model.
  \<^item> JavaScript strings are \<open>string\<close> (lists of characters); \<^verbatim>\<open>substring(0, n)\<close> is
    \<open>take n\<close> and \<^verbatim>\<open>substring(n)\<close> is \<open>drop n\<close>.
  \<^item> Token counts, clock readings and epoch-millisecond timestamps are \<open>int\<close>: they are
    integral. The additions and subtractions of the totals are those of IEEE 754 doubles
    on integers: exact up to \<open>2^53\<close> in magnitude and rounded beyond (\<open>round_double\<close>). The
    sort key is compared as the integer it is. The upstream ratio, on which no arithmetic
    is done, is \<open>real\<close>. \<^verbatim>\<open>NaN\<close> and the infinities are not modelled.
  \<^item> A field of the upstream JSON body that is \<^verbatim>\<open>null\<close>, \<^verbatim>\<open>undefined\<close> or missing is
    \<open>None\<close>; the code never tells the three apart.
  \<^item> What the outside world does is an explicit argument: the clock readings, and for each
    credential the replies of the upstream endpoint to its successive requests.
  \<^item> What the code does to the outside world is an explicit result: the list of requests
    sent and timers awaited.
\<close>

subsection \<open>Type definitions\<close>

record ApiKey =
  ak_id :: string
  ak_key :: string

datatype ApiKeyResult =
    ApiUsageData (id': string) (key': string) (startDate: string) (endDate: string)
      (orgTotalTokensUsed: int) (totalAllowance: int) (usedRatio: real)
  | ApiErrorData (id': string) (key': string) (error: string)

record UsageTotals =
  total_orgTotalTokensUsed :: int
  total_totalAllowance :: int
  totalRemaining :: int

record AggregatedResponse =
  update_time :: string
  total_count :: nat
  totals :: UsageTotals
  data :: "ApiKeyResult list"

text \<open>
  The upstream body, \<^verbatim>\<open>interface ApiResponse\<close>. The interface declares every field
  present, but the code reads them with \<^verbatim>\<open>usage?.standard\<close> and \<^verbatim>\<open>|| 0\<close>, so every field may
  be absent.
\<close>

record StandardUsage =
  std_orgTotalTokensUsed :: "int option"
  std_totalAllowance :: "int option"
  std_usedRatio :: "real option"

record Usage =
  usage_startDate :: "int option"
  usage_endDate :: "int option"
  usage_standard :: "StandardUsage option"

record ApiResponse =
  usage :: "Usage option"

subsection \<open>Configuration\<close>

definition TIMEZONE_OFFSET_HOURS :: int where
  "TIMEZONE_OFFSET_HOURS = 8"

definition KEY_MASK_PREFIX_LENGTH :: nat where
  "KEY_MASK_PREFIX_LENGTH = 4"

definition KEY_MASK_SUFFIX_LENGTH :: nat where
  "KEY_MASK_SUFFIX_LENGTH = 4"


subsection \<open>Database operations\<close>

text \<open>
  Modelled from the spec: the key-value store is a service outside the repository (sections
  4.5 and 6 of the specification), reached through \<^verbatim>\<open>kv.list\<close>, \<^verbatim>\<open>kv.get\<close> and \<^verbatim>\<open>kv.put\<close>.
  The worker uses two kinds of entries in it: \<^verbatim>\<open>api_keys:<id>\<close>, holding a secret as text,
  and the single entry \<^verbatim>\<open>cache:data\<close>, holding a report as JSON and written with an
  \<^verbatim>\<open>expirationTtl\<close>. The model keeps the two apart: the entries under the prefix
  \<^verbatim>\<open>api_keys:\<close> as the list of their (id, text) pairs in the order in which the store
  enumerates them, and the cache entry as the stored report with its absolute expiration
  time in milliseconds. Serialising a report to JSON and parsing it back is the identity,
  and no operation of the store fails.
\<close>

record KVNamespace =
  api_keys :: "(string \<times> string) list"
  cache_data :: "(AggregatedResponse \<times> int) option"

text \<open>
  One call of \<^verbatim>\<open>kv.list({ prefix: "api_keys:" })\<close> returns one page: the first 1000 names
  under the prefix, which is the store's limit for a call, with a cursor for the rest. The
  specification does not speak of pages. \<open>kv_list\<close> is that page, each name with the text
  that \<^verbatim>\<open>kv.get\<close> returns for it.
\<close>

definition list_limit :: nat where
  "list_limit = 1000"

definition kv_list :: "KVNamespace \<Rightarrow> (string \<times> string) list" where
  "kv_list kv = take list_limit (api_keys kv)"



text \<open>
  \<^verbatim>\<open>getAllKeys\<close> makes one call of \<^verbatim>\<open>kv.list\<close> and does not follow the cursor;
  \<^verbatim>\<open>if (value)\<close> skips an entry whose text is empty.
\<close>

definition getAllKeys :: "KVNamespace \<Rightarrow> ApiKey list" where
  "getAllKeys kv =
     map (\<lambda>(i, v). \<lparr>ak_id = i, ak_key = v\<rparr>) (filter (\<lambda>(i, v). v \<noteq> []) (kv_list kv))"



subsection \<open>Utility functions\<close>

definition maskApiKey :: "string \<Rightarrow> string" where
  "maskApiKey key =
     (if length key \<le> KEY_MASK_PREFIX_LENGTH + KEY_MASK_SUFFIX_LENGTH
      then take KEY_MASK_PREFIX_LENGTH key @ ''...''
      else take KEY_MASK_PREFIX_LENGTH key @ ''...'' @
           drop (length key - KEY_MASK_SUFFIX_LENGTH) key)"

text \<open>Numbers in template literals: the decimal digits of a number.\<close>

definition digit :: "nat \<Rightarrow> char" where
  "digit n = ''0123456789'' ! (n mod 10)"

function decimal :: "nat \<Rightarrow> string" where
  "decimal n = (if 10 \<le> n then decimal (n div 10) else []) @ [digit n]"
  by pat_completeness auto
termination
  by (relation "measure (\<lambda>n. n)") auto

declare decimal.simps [simp del]

text \<open>\<^verbatim>\<open>toString\<close> of an integral number.\<close>

definition number_toString :: "int \<Rightarrow> string" where
  "number_toString x =
     (if 0 \<le> x then decimal (nat x) else CHR ''-'' # decimal (nat (abs x)))"

definition padStart :: "nat \<Rightarrow> char \<Rightarrow> string \<Rightarrow> string" where
  "padStart n c s = replicate (n - length s) c @ s"

text \<open>
  The built-in \<^verbatim>\<open>Date\<close>, as ECMAScript defines it: a time value is a number of
  milliseconds since the epoch, valid up to \<open>8.64 * 10^15\<close> in magnitude; its calendar
  fields are those of the proleptic Gregorian calendar. \<open>civil_from_days\<close> gives the
  year, the month (1 to 12) and the day of the month of a day number.
\<close>

definition msPerDay :: int where
  "msPerDay = 86400000"

definition civil_from_days :: "int \<Rightarrow> int \<times> int \<times> int" where
  "civil_from_days z0 =
     (let z = z0 + 719468;
          era = z div 146097;
          doe = z - era * 146097;
          yoe = (doe - doe div 1460 + doe div 36524 - doe div 146096) div 365;
          doy = doe - (365 * yoe + yoe div 4 - yoe div 100);
          mp = (5 * doy + 2) div 153;
          d = doy - (153 * mp + 2) div 5 + 1;
          m = (if mp < 10 then mp + 3 else mp - 9);
          y = yoe + era * 400 + (if m \<le> 2 then 1 else 0)
      in (y, m, d))"

definition getFullYear :: "int \<Rightarrow> int" where
  "getFullYear t = fst (civil_from_days (t div msPerDay))"

definition getMonth :: "int \<Rightarrow> int" where
  "getMonth t = fst (snd (civil_from_days (t div msPerDay))) - 1"

definition getDate :: "int \<Rightarrow> int" where
  "getDate t = snd (snd (civil_from_days (t div msPerDay)))"

definition getHours :: "int \<Rightarrow> int" where
  "getHours t = (t mod msPerDay) div 3600000"

definition getMinutes :: "int \<Rightarrow> int" where
  "getMinutes t = ((t mod msPerDay) div 60000) mod 60"

definition getSeconds :: "int \<Rightarrow> int" where
  "getSeconds t = ((t mod msPerDay) div 1000) mod 60"

definition getMilliseconds :: "int \<Rightarrow> int" where
  "getMilliseconds t = t mod 1000"

definition pad_num :: "nat \<Rightarrow> int \<Rightarrow> string" where
  "pad_num w n = padStart w (CHR ''0'') (number_toString n)"

definition iso_year :: "int \<Rightarrow> string" where
  "iso_year y =
     (if 0 \<le> y \<and> y \<le> 9999 then pad_num 4 y
      else (if y < 0 then ''-'' else ''+'') @ pad_num 6 (abs y))"

definition iso_date :: "int \<Rightarrow> string" where
  "iso_date t = iso_year (getFullYear t) @ ''-'' @ pad_num 2 (getMonth t + 1) @ ''-'' @
     pad_num 2 (getDate t)"

text \<open>\<^verbatim>\<open>toISOString\<close> throws a RangeError on an invalid date: \<open>None\<close>.\<close>

definition toISOString :: "int \<Rightarrow> string option" where
  "toISOString t =
     (if abs t > 8640000000000000 then None
      else Some (iso_date t @ ''T'' @ pad_num 2 (getHours t) @ '':'' @
                 pad_num 2 (getMinutes t) @ '':'' @ pad_num 2 (getSeconds t) @ ''.'' @
                 pad_num 3 (getMilliseconds t) @ ''Z''))"

text \<open>
  \<^verbatim>\<open>formatDate\<close>. For a number, \<^verbatim>\<open>!timestamp && timestamp !== 0\<close> holds of no integer, so
  only an absent timestamp gives \<^verbatim>\<open>'N/A'\<close>; \<^verbatim>\<open>split('T')[0]\<close> is the text before the first
  \<^verbatim>\<open>T\<close>.
\<close>

definition formatDate :: "int option \<Rightarrow> string" where
  "formatDate timestamp =
     (case timestamp of
        None \<Rightarrow> ''N/A''
      | Some t \<Rightarrow>
          (case toISOString t of
             None \<Rightarrow> ''Invalid Date''
           | Some s \<Rightarrow> takeWhile (\<lambda>c. c \<noteq> CHR ''T'') s))"

definition getBeijingTime :: "int \<Rightarrow> int" where
  "getBeijingTime now = now + TIMEZONE_OFFSET_HOURS * 60 * 60 * 1000"

text \<open>The local time zone of the worker's runtime is UTC.\<close>

definition formatDateTime :: "int \<Rightarrow> string" where
  "formatDateTime date =
     number_toString (getFullYear date) @ ''-'' @ pad_num 2 (getMonth date + 1) @ ''-'' @
     pad_num 2 (getDate date) @ '' '' @ pad_num 2 (getHours date) @ '':'' @
     pad_num 2 (getMinutes date) @ '':'' @ pad_num 2 (getSeconds date)"

subsection \<open>API data fetching\<close>

text \<open>
  \<^verbatim>\<open>batchProcess\<close>. Beside the results, the model returns what the loop awaits, in order:
  \<open>RunBatch batch\<close> for \<^verbatim>\<open>await Promise.all(batch.map(processor))\<close>, which resumes when
  every worker of the batch has settled, and \<open>Pause delayMs\<close> for the awaited timer. The
  workers of one batch run concurrently; the model keeps their results, which
  \<^verbatim>\<open>Promise.all\<close> returns in the order of the batch. A processor is a total function: the
  only processor of the program, \<^verbatim>\<open>fetchApiKeyData\<close>, catches every exception. With a
  concurrency of 0 the loop of the source never ends, and the model returns \<open>None\<close>.
\<close>

datatype 'a step = RunBatch "'a list" | Pause nat

partial_function (option) batch_loop ::
  "'a list \<Rightarrow> ('a \<Rightarrow> 'r) \<Rightarrow> nat \<Rightarrow> nat \<Rightarrow> nat \<Rightarrow> 'r list \<Rightarrow> 'a step list \<Rightarrow>
     ('r list \<times> 'a step list) option" where
  "batch_loop items processor concurrency delayMs i results steps =
     (if i < length items then
        batch_loop items processor concurrency delayMs (i + concurrency)
          (results @ map processor (take concurrency (drop i items)))
          (steps @ [RunBatch (take concurrency (drop i items))] @
             (if i + concurrency < length items then [Pause delayMs] else []))
      else Some (results, steps))"

definition batchProcess ::
  "'a list \<Rightarrow> ('a \<Rightarrow> 'r) \<Rightarrow> nat \<Rightarrow> nat \<Rightarrow> ('r list \<times> 'a step list) option" where
  "batchProcess items processor concurrency delayMs =
     batch_loop items processor concurrency delayMs 0 [] []"

text \<open>
  What one call of \<^verbatim>\<open>fetch\<close> and the reading of its body come to: the call rejects (a
  network error or a timeout), or it resolves with a status and a body. The body is not
  JSON (\<^verbatim>\<open>response.json()\<close> rejects), or it is the JSON value \<^verbatim>\<open>null\<close>, or another JSON
  value, read through \<^verbatim>\<open>interface ApiResponse\<close>: a value that is not an object has no
  property \<^verbatim>\<open>usage\<close>.
\<close>

datatype body = NotJson | JsonNull | JsonValue ApiResponse

datatype reply = NetworkError | HttpResponse nat body

text \<open>What a call of \<^verbatim>\<open>fetchApiKeyData\<close> does: requests with a bearer secret, and timers.\<close>

datatype event = Request string | Sleep nat

text \<open>\<^verbatim>\<open>response.ok\<close>: the status is in the range 200 to 299.\<close>

definition ok :: "nat \<Rightarrow> bool" where
  "ok status = (200 \<le> status \<and> status \<le> 299)"

text \<open>\<^verbatim>\<open>x || 0\<close> on a number that may be absent.\<close>

definition or_zero :: "'a::zero option \<Rightarrow> 'a" where
  "or_zero x = (case x of None \<Rightarrow> 0 | Some v \<Rightarrow> if v = 0 then 0 else v)"

definition maxRetries :: nat where
  "maxRetries = 2"

text \<open>
  \<^verbatim>\<open>fetchApiKeyData\<close>. \<open>server n\<close> is the outcome of the \<open>n\<close>-th request from now on, so the
  recursive call sees the outcomes shifted by one. Destructuring \<^verbatim>\<open>null\<close> throws a
  TypeError inside the \<^verbatim>\<open>try\<close>, which the \<^verbatim>\<open>catch\<close> turns into the same result as a
  rejected call.
\<close>

function fetchApiKeyData ::
  "string \<Rightarrow> string \<Rightarrow> nat \<Rightarrow> (nat \<Rightarrow> reply) \<Rightarrow> ApiKeyResult \<times> event list" where
  "fetchApiKeyData i key retryCount server =
     (let maskedKey = maskApiKey key in
      case server 0 of
        NetworkError \<Rightarrow> (ApiErrorData i maskedKey ''Failed to fetch'', [Request key])
      | HttpResponse status b \<Rightarrow>
          if \<not> ok status then
            if status = 401 \<and> retryCount < maxRetries then
              (let delayMs = (retryCount + 1) * 1000;
                   (r, evs) = fetchApiKeyData i key (retryCount + 1) (\<lambda>n. server (Suc n))
               in (r, Request key # Sleep delayMs # evs))
            else (ApiErrorData i maskedKey (''HTTP '' @ decimal status), [Request key])
          else
            (case b of
               NotJson \<Rightarrow> (ApiErrorData i maskedKey ''Failed to fetch'', [Request key])
             | JsonNull \<Rightarrow> (ApiErrorData i maskedKey ''Failed to fetch'', [Request key])
             | JsonValue apiData \<Rightarrow>
                 (case usage apiData of
                    None \<Rightarrow> (ApiErrorData i maskedKey ''Invalid API response'', [Request key])
                  | Some u \<Rightarrow>
                      (case usage_standard u of
                         None \<Rightarrow>
                           (ApiErrorData i maskedKey ''Invalid API response'', [Request key])
                       | Some standard \<Rightarrow>
                           (ApiUsageData i maskedKey
                              (formatDate (usage_startDate u))
                              (formatDate (usage_endDate u))
                              (or_zero (std_orgTotalTokensUsed standard))
                              (or_zero (std_totalAllowance standard))
                              (or_zero (std_usedRatio standard)),
                            [Request key])))))"
  by pat_completeness auto
termination
  by (relation "measure (\<lambda>(i, key, retryCount, server). maxRetries - retryCount)") auto

declare fetchApiKeyData.simps [simp del]

text \<open>\<^verbatim>\<open>'error' in result\<close>, and the type guard built on it.\<close>

definition has_error :: "ApiKeyResult \<Rightarrow> bool" where
  "has_error result = (case result of ApiErrorData _ _ _ \<Rightarrow> True | _ \<Rightarrow> False)"

definition isApiUsageData :: "ApiKeyResult \<Rightarrow> bool" where
  "isApiUsageData result = (\<not> has_error result)"

text \<open>
  \<^verbatim>\<open>Array.prototype.sort\<close> with a comparator, as ECMAScript defines it for a consistent
  comparator: the result is ordered by the comparator and the sort is stable. An insertion
  sort that puts an element before the first one it does not compare greater than, taking
  the elements from the right, is such a sort.
\<close>

fun insert_by :: "('a \<Rightarrow> 'a \<Rightarrow> int) \<Rightarrow> 'a \<Rightarrow> 'a list \<Rightarrow> 'a list" where
  "insert_by cmp x [] = [x]"
| "insert_by cmp x (y # ys) =
     (if cmp x y \<le> 0 then x # y # ys else y # insert_by cmp x ys)"

definition sort_by :: "('a \<Rightarrow> 'a \<Rightarrow> int) \<Rightarrow> 'a list \<Rightarrow> 'a list" where
  "sort_by cmp xs = foldr (insert_by cmp) xs []"

text \<open>The steps of \<^verbatim>\<open>getAggregatedData\<close> after the results are in (lines 236 to 253).\<close>

definition remaining :: "ApiKeyResult \<Rightarrow> int" where
  "remaining r = max 0 (totalAllowance r - orgTotalTokensUsed r)"

definition validResults :: "ApiKeyResult list \<Rightarrow> ApiKeyResult list" where
  "validResults results = filter isApiUsageData results"

definition sortedValid :: "ApiKeyResult list \<Rightarrow> ApiKeyResult list" where
  "sortedValid results =
     map fst
       (sort_by (\<lambda>a b. snd b - snd a)
          (map (\<lambda>r. (r, remaining r)) (validResults results)))"

text \<open>
  The numbers of the totals are doubles. Every integer up to \<open>2^53\<close> in magnitude is a
  double; the sum or difference of two doubles is the nearest double to the exact result,
  the one with the even significand when two are equally near. For an integer \<open>x\<close>,
  \<open>2 ^ ulp_exp \<bar>x\<bar>\<close> is the distance between the doubles around it, and \<open>round_double x\<close>
  the double it is rounded to. Overflow to \<^verbatim>\<open>Infinity\<close> is not modelled.
\<close>

function ulp_exp :: "int \<Rightarrow> nat" where
  "ulp_exp m = (if m < 9007199254740992 then 0 else Suc (ulp_exp (m div 2)))"
  by pat_completeness auto
termination
  by (relation "measure nat") auto

declare ulp_exp.simps [simp del]

definition round_double :: "int \<Rightarrow> int" where
  "round_double x =
     (let m = \<bar>x\<bar>;
          u = 2 ^ ulp_exp m;
          q = m div u;
          r = m mod u;
          q' = (if u < 2 * r \<or> (2 * r = u \<and> odd q) then q + 1 else q)
      in sgn x * (q' * u))"

definition js_add :: "int \<Rightarrow> int \<Rightarrow> int" where
  "js_add a b = round_double (a + b)"

definition js_sub :: "int \<Rightarrow> int \<Rightarrow> int" where
  "js_sub a b = round_double (a - b)"

definition emptyTotals :: UsageTotals where
  "emptyTotals =
     \<lparr>total_orgTotalTokensUsed = 0, total_totalAllowance = 0, totalRemaining = 0\<rparr>"

definition compute_totals :: "ApiKeyResult list \<Rightarrow> UsageTotals" where
  "compute_totals results =
     foldl (\<lambda>acc res.
        \<lparr>total_orgTotalTokensUsed =
           js_add (total_orgTotalTokensUsed acc) (orgTotalTokensUsed res),
         total_totalAllowance = js_add (total_totalAllowance acc) (totalAllowance res),
         totalRemaining =
           js_add (totalRemaining acc)
             (max 0 (js_sub (totalAllowance res) (orgTotalTokensUsed res)))\<rparr>)
       emptyTotals (validResults results)"

definition aggregate :: "int \<Rightarrow> nat \<Rightarrow> ApiKeyResult list \<Rightarrow> AggregatedResponse" where
  "aggregate beijingTime keyCount results =
     \<lparr>update_time = formatDateTime beijingTime,
      total_count = keyCount,
      totals = compute_totals results,
      data = sortedValid results @ filter has_error results\<rparr>"

text \<open>
  \<^verbatim>\<open>getAggregatedData\<close>. \<open>now\<close> is the reading of \<^verbatim>\<open>Date.now()\<close>, and \<open>upstream k\<close> the
  replies of the endpoint to the requests made for the credential \<open>k\<close> during this run.
  The second component of the result is what the run did: \<open>Scheduler\<close> for each call of
  \<^verbatim>\<open>batchProcess\<close>, with what it awaited, and \<open>Worker\<close> for each call of
  \<^verbatim>\<open>fetchApiKeyData\<close>, with the credential's id and its requests and timers.
\<close>

datatype activity = Scheduler "ApiKey step list" | Worker string "event list"

definition emptyResponse :: "int \<Rightarrow> AggregatedResponse" where
  "emptyResponse beijingTime =
     \<lparr>update_time = formatDateTime beijingTime,
      total_count = 0,
      totals = emptyTotals,
      data = []\<rparr>"

definition processor :: "(ApiKey \<Rightarrow> nat \<Rightarrow> reply) \<Rightarrow> ApiKey \<Rightarrow> ApiKeyResult \<times> event list" where
  "processor upstream k = fetchApiKeyData (ak_id k) (ak_key k) 0 (upstream k)"

definition getAggregatedData ::
  "KVNamespace \<Rightarrow> int \<Rightarrow> (ApiKey \<Rightarrow> nat \<Rightarrow> reply) \<Rightarrow>
     (AggregatedResponse \<times> activity list) option" where
  "getAggregatedData kv now upstream =
     (let keyPairs = getAllKeys kv;
          beijingTime = getBeijingTime now
      in if length keyPairs = 0 then Some (emptyResponse beijingTime, [])
         else
           (case batchProcess keyPairs (processor upstream) 10 100 of
              None \<Rightarrow> None
            | Some (outcomes, steps) \<Rightarrow>
                Some (aggregate beijingTime (length keyPairs) (map fst outcomes),
                      Scheduler steps #
                        map (\<lambda>(k, out). Worker (ak_id k) (snd out)) (zip keyPairs outcomes))))"

subsection \<open>Route handlers\<close>

record Response =
  status :: nat
  json :: AggregatedResponse



subsection \<open>The batch policy in the words of the specification\<close>

text \<open>
  The specification describes the scheduler by its policy: partition the items into
  consecutive chunks of the size of the concurrency, run each chunk to its end before the
  next, and put the delay between chunks and not after the last one. \<open>chunks\<close>,
  \<open>intersperse\<close> and \<open>schedule\<close> say that, to be compared with the loop of
  \<^verbatim>\<open>batchProcess\<close>.
\<close>

function chunks :: "nat \<Rightarrow> 'a list \<Rightarrow> 'a list list" where
  "chunks c xs = (if c = 0 \<or> xs = [] then [] else take c xs # chunks c (drop c xs))"
  by pat_completeness auto
termination
  by (relation "measure (\<lambda>(c, xs). length xs)") auto

declare chunks.simps [simp del]

fun intersperse :: "'a \<Rightarrow> 'a list \<Rightarrow> 'a list" where
  "intersperse s [] = []"
| "intersperse s [x] = [x]"
| "intersperse s (x # y # ys) = x # s # intersperse s (y # ys)"

definition schedule :: "nat \<Rightarrow> nat \<Rightarrow> 'a list \<Rightarrow> 'a step list" where
  "schedule c d items = intersperse (Pause d) (map RunBatch (chunks c items))"

subsection \<open>Notions used in the statements\<close>

text \<open>A reply with the status 401.\<close>

definition unauthorized :: "reply \<Rightarrow> bool" where
  "unauthorized r = (case r of HttpResponse st b \<Rightarrow> st = 401 | NetworkError \<Rightarrow> False)"

text \<open>
  The longest course of a call of \<^verbatim>\<open>fetchApiKeyData\<close>: three requests, a second after the
  first and two seconds after the second.
\<close>

definition full_trace :: "string \<Rightarrow> event list" where
  "full_trace key = [Request key, Sleep 1000, Request key, Sleep 2000, Request key]"

text \<open>A result with another text in its field \<^verbatim>\<open>key\<close>.\<close>

definition set_key :: "string \<Rightarrow> ApiKeyResult \<Rightarrow> ApiKeyResult" where
  "set_key m r =
     (case r of
        ApiUsageData i _ s e u a q \<Rightarrow> ApiUsageData i m s e u a q
      | ApiErrorData i _ e \<Rightarrow> ApiErrorData i m e)"

text \<open>
  The sum of the magnitudes of the token counts of a list of Success results, which bounds
  every number met while their totals are added up.
\<close>

definition magnitude :: "ApiKeyResult list \<Rightarrow> int" where
  "magnitude xs = sum_list (map (\<lambda>r. \<bar>orgTotalTokensUsed r\<bar> + \<bar>totalAllowance r\<bar>) xs)"

subsection \<open>Example data\<close>

text \<open>
  Three results in the shape of the specification's example (A with 100 of 500 used, B failed
  with HTTP 401, C with 500 of 500 used) and a fourth, D, that ties with A; an upstream body
  with a usage record; behaviours of the upstream endpoint; and namespaces.
\<close>

definition usage_A :: ApiKeyResult where
  "usage_A = ApiUsageData ''A'' ''sk-a...aaaa'' ''2023-11-14'' ''2023-12-14'' 100 500 0.2"

definition failure_B :: ApiKeyResult where
  "failure_B = ApiErrorData ''B'' ''sk-b...bbbb'' ''HTTP 401''"

definition usage_C :: ApiKeyResult where
  "usage_C = ApiUsageData ''C'' ''sk-c...cccc'' ''2023-11-14'' ''2023-12-14'' 500 500 1"

definition usage_D :: ApiKeyResult where
  "usage_D = ApiUsageData ''D'' ''sk-d...dddd'' ''N/A'' ''N/A'' 0 400 0"

text \<open>Two Success results whose token counts add up to more than \<open>2^53\<close>.\<close>

definition big_used :: ApiKeyResult where
  "big_used = ApiUsageData ''X'' ''sk-x...xxxx'' ''N/A'' ''N/A'' 9007199254740992 0 0"

definition one_used :: ApiKeyResult where
  "one_used = ApiUsageData ''Y'' ''sk-y...yyyy'' ''N/A'' ''N/A'' 1 0 0"

definition good_standard :: StandardUsage where
  "good_standard =
     \<lparr>std_orgTotalTokensUsed = Some 100, std_totalAllowance = Some 500, std_usedRatio = None\<rparr>"

definition good_usage :: Usage where
  "good_usage =
     \<lparr>usage_startDate = Some 1700000000000, usage_endDate = None,
      usage_standard = Some good_standard\<rparr>"

definition good_response :: ApiResponse where
  "good_response = \<lparr>usage = Some good_usage\<rparr>"

definition good_body :: body where
  "good_body = JsonValue good_response"

definition recovering :: "nat \<Rightarrow> reply" where
  "recovering n = (if n < 2 then HttpResponse 401 NotJson else HttpResponse 200 good_body)"

definition refusing :: "nat \<Rightarrow> reply" where
  "refusing n = HttpResponse 401 NotJson"

definition unreachable :: "nat \<Rightarrow> reply" where
  "unreachable n = NetworkError"

definition throttled :: "nat \<Rightarrow> reply" where
  "throttled n = (if n = 0 then HttpResponse 401 NotJson else HttpResponse 503 NotJson)"

definition null_body :: "nat \<Rightarrow> reply" where
  "null_body n = HttpResponse 200 JsonNull"

definition no_usage :: "nat \<Rightarrow> reply" where
  "no_usage n = HttpResponse 200 (JsonValue \<lparr>usage = None\<rparr>)"

definition example_kv :: KVNamespace where
  "example_kv =
     \<lparr>api_keys = [(''A'', ''sk-aaaaaaaaaaaa''), (''B'', ''sk-bbbbbbbbbbbb''), (''E'', [])],
      cache_data = None\<rparr>"

definition empty_kv :: KVNamespace where
  "empty_kv = \<lparr>api_keys = [], cache_data = None\<rparr>"

definition example_upstream :: "ApiKey \<Rightarrow> nat \<Rightarrow> reply" where
  "example_upstream k = (if ak_id k = ''A'' then recovering else refusing)"




section \<open>Properties\<close>

subsection \<open>Key masking\<close>

lemmas mask_defs = maskApiKey_def KEY_MASK_PREFIX_LENGTH_def KEY_MASK_SUFFIX_LENGTH_def

lemma mask_short: "length s \<le> 8 \<Longrightarrow> maskApiKey s = take 4 s @ ''...''"
  by (simp add: mask_defs)

lemma mask_long:
  "8 < length s \<Longrightarrow> maskApiKey s = take 4 s @ ''...'' @ drop (length s - 4) s"
  by (simp add: mask_defs)

lemma length_mask_long: "8 < length s \<Longrightarrow> length (maskApiKey s) = 11"
  by (simp add: mask_long)

lemma mask_prefix: "prefix (take KEY_MASK_PREFIX_LENGTH s) (maskApiKey s)"
  by (simp add: mask_defs)

lemma mask_contains_ellipsis:
  assumes long: "8 < length s" and sub: "sublist s (maskApiKey s)"
  shows "length s \<le> 11 \<and> sublist ''...'' s"
proof -
  from sub obtain ps ss where eq: "maskApiKey s = ps @ s @ ss"
    by (auto simp: sublist_def)
  have len: "length ps + length s + length ss = 11"
    using length_mask_long [OF long] eq by (metis length_append add.assoc)
  then have lps: "length ps \<le> 2" and ls: "length s \<le> 11"
    using long by auto
  have "take 3 (drop 4 (maskApiKey s)) = ''...''"
    using long by (simp add: mask_long)
  then have "take 3 (drop 4 (ps @ s @ ss)) = ''...''"
    using eq by simp
  then have mid: "take 3 (drop (4 - length ps) s) = ''...''"
    using lps long by simp
  have "s = take (4 - length ps) s @ take 3 (drop (4 - length ps) s) @
      drop 3 (drop (4 - length ps) s)"
    by (metis append_take_drop_id)
  then have "s = take (4 - length ps) s @ ''...'' @ drop 3 (drop (4 - length ps) s)"
    using mid by simp
  then have "sublist ''...'' s"
    unfolding sublist_def by blast
  with ls show ?thesis by simp
qed

text \<open>
  C9, as the specification states it, fails: a secret longer than the prefix and the suffix
  together can be contained in its mask. The secret \<^verbatim>\<open>abcd...efgh\<close> has 11 characters and is
  its own mask.
\<close>

theorem maskApiKey_can_contain_long_secret:
  "KEY_MASK_PREFIX_LENGTH + KEY_MASK_SUFFIX_LENGTH < length ''abcd...efgh'' \<and>
   maskApiKey ''abcd...efgh'' = ''abcd...efgh'' \<and>
   sublist ''abcd...efgh'' (maskApiKey ''abcd...efgh'')"
  by (simp add: mask_defs)

text \<open>
  C9, amended. With a prefix length and a suffix length of 4, the mask of a secret is its
  first 4 characters and \<^verbatim>\<open>...\<close> when the secret has at most 8 characters, and its first 4
  characters, \<^verbatim>\<open>...\<close> and its last 4 characters otherwise; it is defined on every string, the
  empty one giving \<^verbatim>\<open>...\<close>; it starts with the first 4 characters of the secret; and the mask
  of a secret of more than 8 characters does not contain the secret as a contiguous
  substring when the secret is longer than the mask or does not itself contain \<^verbatim>\<open>...\<close>.
\<close>

theorem maskApiKey_shape:
  "KEY_MASK_PREFIX_LENGTH = 4 \<and> KEY_MASK_SUFFIX_LENGTH = 4 \<and>
   maskApiKey s =
     (if length s \<le> KEY_MASK_PREFIX_LENGTH + KEY_MASK_SUFFIX_LENGTH
      then take KEY_MASK_PREFIX_LENGTH s @ ''...''
      else take KEY_MASK_PREFIX_LENGTH s @ ''...'' @
           drop (length s - KEY_MASK_SUFFIX_LENGTH) s) \<and>
   maskApiKey [] = ''...'' \<and>
   prefix (take KEY_MASK_PREFIX_LENGTH s) (maskApiKey s) \<and>
   (KEY_MASK_PREFIX_LENGTH + KEY_MASK_SUFFIX_LENGTH < length s \<and>
      (length (maskApiKey s) < length s \<or> \<not> sublist ''...'' s)
    \<longrightarrow> \<not> sublist s (maskApiKey s))"
proof -
  have "\<not> sublist s (maskApiKey s)"
    if "8 < length s" "length (maskApiKey s) < length s \<or> \<not> sublist ''...'' s"
    using mask_contains_ellipsis [OF that(1)] that length_mask_long [OF that(1)] by auto
  then show ?thesis
    using mask_prefix [of s] by (auto simp: mask_defs)
qed

theorem maskApiKey_shape_witness:
  "maskApiKey ''sk-abcdefghijkl'' = ''sk-a...ijkl'' \<and>
   \<not> sublist ''sk-abcdefghijkl'' (maskApiKey ''sk-abcdefghijkl'')"
proof -
  let ?k = "''sk-abcdefghijkl''"
  have m: "maskApiKey ?k = ''sk-a...ijkl''"
    by (simp add: mask_defs)
  have h: "KEY_MASK_PREFIX_LENGTH + KEY_MASK_SUFFIX_LENGTH < length ?k \<and>
      (length (maskApiKey ?k) < length ?k \<or> \<not> sublist ''...'' ?k)"
    by (simp add: mask_defs)
  from maskApiKey_shape [of ?k] h have "\<not> sublist ?k (maskApiKey ?k)"
    by blast
  with m show ?thesis
    by blast
qed

text \<open>
  C10. The mask of a non-empty secret of at most 4 characters, the prefix length, is the
  whole secret followed by \<^verbatim>\<open>...\<close>: the secret is a contiguous substring of its mask.
\<close>

theorem maskApiKey_short_secret:
  "0 < length s \<Longrightarrow> length s \<le> KEY_MASK_PREFIX_LENGTH \<Longrightarrow>
   maskApiKey s = s @ ''...'' \<and> sublist s (maskApiKey s)"
  by (simp add: mask_defs)

theorem maskApiKey_short_secret_witness:
  "maskApiKey ''abc'' = ''abc'' @ ''...'' \<and> sublist ''abc'' (maskApiKey ''abc'')"
proof -
  have "0 < length ''abc''" "length ''abc'' \<le> KEY_MASK_PREFIX_LENGTH"
    by (simp_all add: KEY_MASK_PREFIX_LENGTH_def)
  then show ?thesis
    by (rule maskApiKey_short_secret)
qed

subsection \<open>The batch scheduler\<close>

lemma chunks_Nil [simp]: "chunks c [] = []"
  by (simp add: chunks.simps)

lemma chunks_step: "0 < c \<Longrightarrow> xs \<noteq> [] \<Longrightarrow> chunks c xs = take c xs # chunks c (drop c xs)"
  by (subst chunks.simps) simp

lemma chunks_eq_Nil: "0 < c \<Longrightarrow> chunks c xs = [] \<longleftrightarrow> xs = []"
  by (subst chunks.simps) simp

lemma intersperse_Cons:
  "intersperse s (x # xs) = x # (if xs = [] then [] else s # intersperse s xs)"
  by (cases xs) simp_all

lemma schedule_step:
  assumes "0 < c" "ys \<noteq> []"
  shows "schedule c d ys =
    [RunBatch (take c ys)] @ (if c < length ys then [Pause d] else []) @
      schedule c d (drop c ys)"
  using assms
  by (simp add: schedule_def chunks_step intersperse_Cons chunks_eq_Nil not_less)

lemma batch_loop_returns:
  assumes "0 < c"
  shows "batch_loop items p c d i res steps =
    Some (res @ map p (drop i items), steps @ schedule c d (drop i items))"
proof (induction "length items - i" arbitrary: i res steps rule: less_induct)
  case less
  show ?case
  proof (cases "i < length items")
    case False
    then show ?thesis
      by (subst batch_loop.simps) (simp add: schedule_def)
  next
    case True
    let ?ys = "drop i items"
    from True have ne: "?ys \<noteq> []" by simp
    from True assms have "length items - (i + c) < length items - i" by arith
    then have ih: "batch_loop items p c d (i + c) r s =
        Some (r @ map p (drop (i + c) items), s @ schedule c d (drop (i + c) items))" for r s
      by (rule less)
    have dd: "drop (i + c) items = drop c ?ys"
      by (simp add: add.commute)
    have mp: "map p (take c ?ys) @ map p (drop c ?ys) = map p ?ys"
      by (metis map_append append_take_drop_id)
    have cond: "(i + c < length items) = (c < length ?ys)"
      by auto
    show ?thesis
      apply (subst batch_loop.simps)
      apply (simp only: True if_True ih dd cond schedule_step [OF assms ne, of d])
      using mp apply simp
      done
  qed
qed

lemma batchProcess_returns:
  "0 < c \<Longrightarrow> batchProcess items p c d = Some (map p items, schedule c d items)"
  by (simp add: batchProcess_def batch_loop_returns)

lemma concat_chunks: "0 < c \<Longrightarrow> concat (chunks c xs) = xs"
proof (induction c xs rule: chunks.induct)
  case (1 c xs)
  then show ?case
    by (cases "xs = []") (simp_all add: chunks_step)
qed

lemma length_chunks: "0 < c \<Longrightarrow> length (chunks c xs) = (length xs + c - 1) div c"
proof (induction c xs rule: chunks.induct)
  case (1 c xs)
  show ?case
  proof (cases "xs = []")
    case True
    with 1 show ?thesis by simp
  next
    case False
    with 1 have ih: "length (chunks c (drop c xs)) = (length (drop c xs) + c - 1) div c"
      by simp
    show ?thesis
    proof (cases "length xs \<le> c")
      case True
      then have "drop c xs = []" by simp
      moreover from True False 1(2) have "(length xs + c - 1) div c = 1"
        by (cases xs) (simp_all add: div_eq_dividend_iff Suc_le_eq)
      ultimately show ?thesis using 1(2) False by (simp add: chunks_step)
    next
      case False
      define n where "n = length xs - c + c - 1"
      from False 1(2) have "length xs + c - 1 = n + c"
        unfolding n_def by arith
      moreover from 1(2) have "(n + c) div c = Suc (n div c)"
        by simp
      moreover from ih have "length (chunks c (drop c xs)) = n div c"
        unfolding n_def by simp
      moreover from \<open>xs \<noteq> []\<close> 1(2) have "length (chunks c xs) = Suc (length (chunks c (drop c xs)))"
        by (subst chunks_step) simp_all
      ultimately show ?thesis
        by (simp only:)
    qed
  qed
qed

lemma chunk_sizes:
  "0 < c \<Longrightarrow> b \<in> set (chunks c xs) \<Longrightarrow> 0 < length b \<and> length b \<le> c"
proof (induction c xs rule: chunks.induct)
  case (1 c xs)
  show ?case
  proof (cases "xs = []")
    case True
    with 1 show ?thesis by simp
  next
    case False
    with 1 show ?thesis by (auto simp: chunks_step)
  qed
qed

lemma full_chunks:
  "0 < c \<Longrightarrow> b \<in> set (butlast (chunks c xs)) \<Longrightarrow> length b = c"
proof (induction c xs rule: chunks.induct)
  case (1 c xs)
  show ?case
  proof (cases "xs = []")
    case True
    with 1 show ?thesis by simp
  next
    case False
    with 1(2) have step: "chunks c xs = take c xs # chunks c (drop c xs)"
      by (rule chunks_step)
    show ?thesis
    proof (cases "drop c xs = []")
      case True
      with 1(3) show ?thesis
        unfolding step by simp
    next
      case rest: False
      then have "chunks c (drop c xs) \<noteq> []"
        using 1(2) by (simp add: chunks_eq_Nil)
      with 1(3) have "b = take c xs \<or> b \<in> set (butlast (chunks c (drop c xs)))"
        unfolding step by simp
      then show ?thesis
      proof
        assume "b = take c xs"
        with rest show ?thesis by simp
      next
        assume "b \<in> set (butlast (chunks c (drop c xs)))"
        with 1(1) 1(2) False show ?thesis by simp
      qed
    qed
  qed
qed

lemma count_intersperse:
  "s \<notin> set xs \<Longrightarrow> count_list (intersperse s xs) s = length xs - 1"
  by (induction s xs rule: intersperse.induct) auto

lemma intersperse_eq_Nil [simp]: "intersperse s xs = [] \<longleftrightarrow> xs = []"
  by (induction s xs rule: intersperse.induct) auto

lemma last_intersperse: "xs \<noteq> [] \<Longrightarrow> last (intersperse s xs) = last xs"
  by (induction s xs rule: intersperse.induct) auto

lemma pauses_schedule:
  "0 < c \<Longrightarrow> count_list (schedule c d items) (Pause d) = (length items + c - 1) div c - 1"
  unfolding schedule_def
  by (subst count_intersperse) (auto simp: length_chunks)

text \<open>
  C5. For a concurrency of at least 1, \<^verbatim>\<open>batchProcess\<close> returns, and its results are the
  workers' results in the order of the items. What it awaits is the schedule of the
  specification: the chunks of the items, each awaited as a whole before the next, with
  one delay between two chunks. The chunks are consecutive (their concatenation is the
  item list), none is empty or larger than the concurrency and all but the last have
  exactly its size; there are \<open>ceil(n/c)\<close> of them, so \<open>ceil(n/c) - 1\<close> delays, and the
  schedule ends with the last chunk, not with a delay.
\<close>

theorem batchProcess_order_and_pacing:
  assumes "1 \<le> c"
  shows "batchProcess items worker c d = Some (map worker items, schedule c d items) \<and>
    schedule c d items = intersperse (Pause d) (map RunBatch (chunks c items)) \<and>
    concat (chunks c items) = items \<and>
    (\<forall>b \<in> set (chunks c items). 1 \<le> length b \<and> length b \<le> c) \<and>
    (\<forall>b \<in> set (butlast (chunks c items)). length b = c) \<and>
    length (chunks c items) = (length items + c - 1) div c \<and>
    count_list (schedule c d items) (Pause d) = (length items + c - 1) div c - 1 \<and>
    (items \<noteq> [] \<longrightarrow> last (schedule c d items) = RunBatch (last (chunks c items)))"
proof -
  from assms have c: "0 < c" by simp
  have "last (schedule c d items) = RunBatch (last (chunks c items))" if "items \<noteq> []"
  proof -
    from that c have ne: "chunks c items \<noteq> []"
      by (simp add: chunks_eq_Nil)
    then show ?thesis
      by (simp add: schedule_def last_intersperse last_map)
  qed
  moreover have "\<forall>b \<in> set (chunks c items). 1 \<le> length b \<and> length b \<le> c"
    using chunk_sizes [OF c] by (auto simp: Suc_le_eq)
  moreover have "\<forall>b \<in> set (butlast (chunks c items)). length b = c"
    using full_chunks [OF c] by blast
  ultimately show ?thesis
    using batchProcess_returns [OF c, of items worker d] concat_chunks [OF c, of items]
      length_chunks [OF c, of items] pauses_schedule [OF c, of d items]
    by (simp add: schedule_def)
qed

theorem batchProcess_order_and_pacing_witness:
  "batchProcess [1, 2, 3, 4, 5 :: nat] (\<lambda>n. 10 * n) 2 100 =
     Some ([10, 20, 30, 40, 50],
           [RunBatch [1, 2], Pause 100, RunBatch [3, 4], Pause 100, RunBatch [5]]) \<and>
   count_list (schedule 2 100 [1, 2, 3, 4, 5 :: nat]) (Pause 100) = 2"
proof -
  have c: "1 \<le> (2 :: nat)" by simp
  have s: "schedule 2 100 [1, 2, 3, 4, 5 :: nat] =
      [RunBatch [1, 2], Pause 100, RunBatch [3, 4], Pause 100, RunBatch [5]]"
    by code_simp
  note t = batchProcess_order_and_pacing [OF c, of "[1, 2, 3, 4, 5 :: nat]" "\<lambda>n. 10 * n" 100]
  from t have r: "batchProcess [1, 2, 3, 4, 5 :: nat] (\<lambda>n. 10 * n) 2 100 =
      Some (map (\<lambda>n. 10 * n) [1, 2, 3, 4, 5], schedule 2 100 [1, 2, 3, 4, 5 :: nat])"
    by blast
  from t have n: "count_list (schedule 2 100 [1, 2, 3, 4, 5 :: nat]) (Pause 100) =
      (length [1, 2, 3, 4, 5 :: nat] + 2 - 1) div 2 - 1"
    by blast
  show ?thesis
    unfolding r n s by simp
qed

subsection \<open>The single-credential fetch\<close>

lemma decimal_401: "decimal 401 = ''401''" by (simp add: decimal.simps digit_def)

lemma not_ok_401 [simp]: "\<not> ok 401"
  by (simp add: ok_def)

lemma fetch_NetworkError:
  "server 0 = NetworkError \<Longrightarrow>
   fetchApiKeyData i key rc server =
     (ApiErrorData i (maskApiKey key) ''Failed to fetch'', [Request key])"
  by (subst fetchApiKeyData.simps) simp

lemma fetch_retry:
  "server 0 = HttpResponse 401 b \<Longrightarrow> rc < maxRetries \<Longrightarrow>
   fetchApiKeyData i key rc server =
     (fst (fetchApiKeyData i key (rc + 1) (\<lambda>n. server (Suc n))),
      Request key # Sleep ((rc + 1) * 1000) #
        snd (fetchApiKeyData i key (rc + 1) (\<lambda>n. server (Suc n))))"
  by (subst fetchApiKeyData.simps) (simp add: case_prod_beta)

lemma fetch_http_error:
  "server 0 = HttpResponse st b \<Longrightarrow> \<not> ok st \<Longrightarrow> st \<noteq> 401 \<or> maxRetries \<le> rc \<Longrightarrow>
   fetchApiKeyData i key rc server =
     (ApiErrorData i (maskApiKey key) (''HTTP '' @ decimal st), [Request key])"
  by (subst fetchApiKeyData.simps) auto

lemma fetch_bad_body:
  "server 0 = HttpResponse st b \<Longrightarrow> ok st \<Longrightarrow> b = NotJson \<or> b = JsonNull \<Longrightarrow>
   fetchApiKeyData i key rc server =
     (ApiErrorData i (maskApiKey key) ''Failed to fetch'', [Request key])"
  by (subst fetchApiKeyData.simps) auto

lemma fetch_invalid:
  "server 0 = HttpResponse st (JsonValue apiData) \<Longrightarrow> ok st \<Longrightarrow>
   usage apiData = None \<or> (\<exists>u. usage apiData = Some u \<and> usage_standard u = None) \<Longrightarrow>
   fetchApiKeyData i key rc server =
     (ApiErrorData i (maskApiKey key) ''Invalid API response'', [Request key])"
  by (subst fetchApiKeyData.simps) auto

lemma fetch_success:
  "server 0 = HttpResponse st (JsonValue apiData) \<Longrightarrow> ok st \<Longrightarrow>
   usage apiData = Some u \<Longrightarrow> usage_standard u = Some sd \<Longrightarrow>
   fetchApiKeyData i key rc server =
     (ApiUsageData i (maskApiKey key) (formatDate (usage_startDate u))
        (formatDate (usage_endDate u)) (or_zero (std_orgTotalTokensUsed sd))
        (or_zero (std_totalAllowance sd)) (or_zero (std_usedRatio sd)),
      [Request key])"
  by (subst fetchApiKeyData.simps) auto

lemma unauthorizedE:
  "unauthorized r \<Longrightarrow> \<exists>b. r = HttpResponse 401 b"
  by (cases r) (simp_all add: unauthorized_def)

lemma fetch_retry_fst:
  "unauthorized (server 0) \<Longrightarrow> rc < maxRetries \<Longrightarrow>
   fst (fetchApiKeyData i key rc server) =
     fst (fetchApiKeyData i key (Suc rc) (\<lambda>n. server (Suc n)))"
  by (auto dest!: unauthorizedE simp: fetch_retry)

lemma fetch_retry_snd:
  "unauthorized (server 0) \<Longrightarrow> rc < maxRetries \<Longrightarrow>
   snd (fetchApiKeyData i key rc server) =
     Request key # Sleep (Suc rc * 1000) #
       snd (fetchApiKeyData i key (Suc rc) (\<lambda>n. server (Suc n)))"
  by (auto dest!: unauthorizedE simp: fetch_retry)

lemma fetch_terminal_snd:
  "\<not> (unauthorized (server 0) \<and> rc < maxRetries) \<Longrightarrow>
   snd (fetchApiKeyData i key rc server) = [Request key]"
  by (subst fetchApiKeyData.simps)
    (auto simp: unauthorized_def Let_def split: reply.splits body.splits option.splits)

lemma fetch_course:
  assumes "n < 3" "\<forall>m<n. unauthorized (server m)"
    "\<not> (unauthorized (server n) \<and> n < 2)"
  shows "fst (fetchApiKeyData i key 0 server) =
      fst (fetchApiKeyData i key n (\<lambda>j. server (j + n))) \<and>
    snd (fetchApiKeyData i key 0 server) = take (2 * n + 1) (full_trace key)"
proof -
  consider "n = 0" | "n = 1" | "n = 2" using assms(1) by linarith
  then show ?thesis
  proof cases
    case 1
    with assms(3) show ?thesis
      by (simp add: fetch_terminal_snd full_trace_def maxRetries_def)
  next
    case 2
    with assms(2) have u0: "unauthorized (server 0)" by simp
    from 2 assms(3) have t: "\<not> unauthorized (server (Suc 0))"
      by simp
    show ?thesis
      using 2 u0 t fetch_terminal_snd [of "\<lambda>j. server (Suc j)" "Suc 0" i key]
      by (simp add: fetch_retry_fst fetch_retry_snd maxRetries_def full_trace_def)
  next
    case 3
    with assms(2) have u0: "unauthorized (server 0)" and u1: "unauthorized (server (Suc 0))"
      by simp_all
    show ?thesis
      using 3 u0 u1 fetch_terminal_snd [of "\<lambda>j. server (Suc (Suc j))" "Suc (Suc 0)" i key]
      by (simp add: fetch_retry_fst fetch_retry_snd maxRetries_def full_trace_def numeral_2_eq_2)
  qed
qed

lemma leading_401s:
  fixes server :: "nat \<Rightarrow> reply"
  shows "\<exists>n<3. (\<forall>m<n. unauthorized (server m)) \<and> \<not> (unauthorized (server n) \<and> n < 2)"
proof (cases "unauthorized (server 0)")
  case False
  then show ?thesis by (intro exI [of _ 0]) simp
next
  case u0: True
  show ?thesis
  proof (cases "unauthorized (server 1)")
    case False
    with u0 show ?thesis by (intro exI [of _ 1]) simp
  next
    case True
    with u0 show ?thesis
      by (intro exI [of _ 2]) (auto simp: less_Suc_eq numeral_2_eq_2)
  qed
qed

lemma fetch_key_independent:
  "fst (fetchApiKeyData i k2 rc server) =
     set_key (maskApiKey k2) (fst (fetchApiKeyData i k rc server))"
proof (induction i k rc server rule: fetchApiKeyData.induct)
  case (1 i key retryCount server)
  show ?case
  proof (cases "unauthorized (server 0) \<and> retryCount < maxRetries")
    case True
    then obtain b where s0: "server 0 = HttpResponse 401 b"
      by (auto dest: unauthorizedE)
    from True s0 1 [of "maskApiKey key" 401 b "(retryCount + 1) * 1000"] show ?thesis
      by (simp add: fetch_retry_fst)
  next
    case False
    then show ?thesis
      by (subst (1 2) fetchApiKeyData.simps)
        (auto simp: unauthorized_def set_key_def Let_def
          split: reply.splits body.splits option.splits)
  qed
qed

lemma fetch_key: "key' (fst (fetchApiKeyData i k rc server)) = maskApiKey k"
proof (induction i k rc server rule: fetchApiKeyData.induct)
  case (1 i key retryCount server)
  show ?case
  proof (cases "unauthorized (server 0) \<and> retryCount < maxRetries")
    case True
    then obtain b where s0: "server 0 = HttpResponse 401 b"
      by (auto dest: unauthorizedE)
    from True s0 1 [of "maskApiKey key" 401 b "(retryCount + 1) * 1000"] show ?thesis
      by (simp add: fetch_retry_fst)
  next
    case False
    then show ?thesis
      by (subst fetchApiKeyData.simps)
        (auto simp: unauthorized_def Let_def split: reply.splits body.splits option.splits)
  qed
qed

subsection \<open>Date formatting\<close>

lemma digit_in: "digit n \<in> set ''0123456789''"
proof -
  have "n mod 10 < length ''0123456789''" by simp
  then show ?thesis
    unfolding digit_def by (rule nth_mem)
qed

lemma digit_code: "(of_char (digit n) :: nat) < 58"
proof -
  have "\<forall>c \<in> set ''0123456789''. (of_char c :: nat) < 58"
    by simp
  then show ?thesis
    using digit_in [of n] by blast
qed

lemma decimal_codes: "c \<in> set (decimal n) \<Longrightarrow> (of_char c :: nat) < 58"
proof (induction n arbitrary: c rule: decimal.induct)
  case (1 n)
  from 1(2) have "c \<in> set (if 10 \<le> n then decimal (n div 10) else []) \<or> c = digit n"
    by (subst (asm) decimal.simps) auto
  then show ?case
    using 1(1) digit_code [of n] by (auto split: if_splits)
qed

lemma number_toString_codes: "c \<in> set (number_toString x) \<Longrightarrow> (of_char c :: nat) < 58"
  using decimal_codes [of c "nat x"] decimal_codes [of c "nat \<bar>x\<bar>"]
  by (auto simp: number_toString_def split: if_splits)

lemma pad_num_codes: "c \<in> set (pad_num w x) \<Longrightarrow> (of_char c :: nat) < 58"
  using number_toString_codes [of c x]
  by (auto simp: pad_num_def padStart_def)

lemma iso_year_codes: "c \<in> set (iso_year y) \<Longrightarrow> (of_char c :: nat) < 58"
  using pad_num_codes [of c 4 y] pad_num_codes [of c 6 "\<bar>y\<bar>"]
  by (auto simp: iso_year_def split: if_splits)

lemma iso_date_codes: "c \<in> set (iso_date t) \<Longrightarrow> (of_char c :: nat) < 58"
  using iso_year_codes [of c "getFullYear t"] pad_num_codes [of c 2 "getMonth t + 1"]
    pad_num_codes [of c 2 "getDate t"]
  by (auto simp: iso_date_def)

lemma no_T_in_iso_date: "c \<in> set (iso_date t) \<Longrightarrow> c \<noteq> CHR ''T''"
  using iso_date_codes [of c t] by auto

lemma formatDate_absent: "formatDate None = ''N/A''"
  by (simp add: formatDate_def)

lemma formatDate_invalid:
  "8640000000000000 < \<bar>t\<bar> \<Longrightarrow> formatDate (Some t) = ''Invalid Date''"
  by (simp add: formatDate_def toISOString_def)

lemma formatDate_valid:
  assumes "\<bar>t\<bar> \<le> 8640000000000000"
  shows "formatDate (Some t) = iso_date t"
proof -
  have "takeWhile (\<lambda>c. c \<noteq> CHR ''T'') (iso_date t @ CHR ''T'' # rest) = iso_date t" for rest
    using no_T_in_iso_date [of _ t] by (simp add: takeWhile_tail)
  with assms show ?thesis
    by (simp add: formatDate_def toISOString_def)
qed

lemma or_zero_simps:
  "or_zero None = 0" "or_zero (Some 0) = 0" "or_zero (Some v) = v"
  by (simp_all add: or_zero_def)

subsection \<open>Aggregation\<close>

lemma insert_by_insort_key:
  "insert_by (\<lambda>a b. f b - f a) x xs = insort_key (\<lambda>y. - f y) x xs"
  by (induction xs) auto

lemma sort_by_sort_key:
  "sort_by (\<lambda>a b. f b - f a) xs = sort_key (\<lambda>y. - f y) xs"
proof -
  have "insert_by (\<lambda>a b. f b - f a) = insort_key (\<lambda>y. - f y)"
    by (intro ext) (rule insert_by_insort_key)
  then show ?thesis
    by (simp add: sort_by_def sort_key_def)
qed

lemma map_fst_insort_key:
  assumes "\<forall>p \<in> set ps. snd p = f (fst p)"
  shows "map fst (insort_key (\<lambda>p. - snd p) (x, f x) ps) =
    insort_key (\<lambda>r. - f r) x (map fst ps)"
  using assms by (induction ps) auto

lemma map_fst_sort_key:
  "map fst (sort_key (\<lambda>p. - snd p) (map (\<lambda>r. (r, f r)) xs)) = sort_key (\<lambda>r. - f r) xs"
proof (induction xs)
  case Nil
  show ?case by simp
next
  case (Cons x xs)
  have "\<forall>p \<in> set (sort_key (\<lambda>p. - snd p) (map (\<lambda>r. (r, f r)) xs)). snd p = f (fst p)"
    by auto
  then show ?case
    using Cons by (simp add: sort_key_simps map_fst_insort_key)
qed

lemma sortedValid_sort_key:
  "sortedValid results = sort_key (\<lambda>r. - remaining r) (validResults results)"
  unfolding sortedValid_def sort_by_sort_key [of snd]
  by (rule map_fst_sort_key)

lemma mset_sortedValid: "mset (sortedValid results) = mset (filter isApiUsageData results)"
  by (simp add: sortedValid_sort_key validResults_def)

lemma set_sortedValid: "set (sortedValid results) = {r \<in> set results. isApiUsageData r}"
  by (simp add: sortedValid_sort_key validResults_def)



lemma has_error_iff: "has_error r \<longleftrightarrow> \<not> isApiUsageData r"
  by (simp add: isApiUsageData_def)

lemma mset_partition_results:
  "mset (sortedValid results @ filter has_error results) = mset results"
proof -
  have "has_error = (\<lambda>r. \<not> isApiUsageData r)"
    by (simp add: fun_eq_iff isApiUsageData_def)
  then have "mset (filter has_error results) =
      filter_mset (\<lambda>r. \<not> isApiUsageData r) (mset results)"
    by simp
  then show ?thesis
    by (simp add: mset_sortedValid)
qed

lemma length_partition_results:
  "length (sortedValid results @ filter has_error results) = length results"
  using mset_partition_results [of results] by (metis size_mset)

lemma filter_valid_data:
  "filter isApiUsageData (sortedValid results @ filter has_error results) = sortedValid results"
proof -
  have "filter isApiUsageData (sortedValid results) = sortedValid results"
    by (rule filter_True) (simp add: set_sortedValid)
  moreover have "filter isApiUsageData (filter has_error results) = []"
    by (simp add: has_error_iff)
  ultimately show ?thesis by simp
qed


lemma ulp_exp_small: "m < 9007199254740992 \<Longrightarrow> ulp_exp m = 0"
  by (simp add: ulp_exp.simps)

lemma ulp_exp_2_53: "ulp_exp 9007199254740992 = 1"
  by (simp add: ulp_exp.simps)

lemma round_double_exact:
  assumes "\<bar>x\<bar> \<le> 9007199254740992"
  shows "round_double x = x"
proof (cases "\<bar>x\<bar> < 9007199254740992")
  case True
  then show ?thesis
    by (simp add: round_double_def ulp_exp_small Let_def mult_sgn_abs)
next
  case False
  with assms have m: "\<bar>x\<bar> = 9007199254740992" by simp
  have "sgn x * \<bar>x\<bar> = x" by (rule mult_sgn_abs)
  then show ?thesis
    unfolding round_double_def m ulp_exp_2_53 Let_def by (simp add: m)
qed

lemma round_double_2_53_plus_1: "round_double 9007199254740993 = 9007199254740992"
proof -
  have "ulp_exp 9007199254740993 = 1"
    by (simp add: ulp_exp.simps)
  then show ?thesis
    by (simp add: round_double_def Let_def)
qed

lemma js_add_exact: "\<bar>a + b\<bar> \<le> 9007199254740992 \<Longrightarrow> js_add a b = a + b"
  by (simp add: js_add_def round_double_exact)

lemma js_sub_exact: "\<bar>a - b\<bar> \<le> 9007199254740992 \<Longrightarrow> js_sub a b = a - b"
  by (simp add: js_sub_def round_double_exact)

lemma magnitude_nonneg: "0 \<le> magnitude xs"
  unfolding magnitude_def by (rule sum_list_nonneg) auto

lemma magnitude_Cons:
  "magnitude (x # xs) = \<bar>orgTotalTokensUsed x\<bar> + \<bar>totalAllowance x\<bar> + magnitude xs"
  by (simp add: magnitude_def)

lemma foldl_totals:
  assumes "\<bar>total_orgTotalTokensUsed acc\<bar> + magnitude xs \<le> 9007199254740992"
    and "\<bar>total_totalAllowance acc\<bar> + magnitude xs \<le> 9007199254740992"
    and "\<bar>totalRemaining acc\<bar> + magnitude xs \<le> 9007199254740992"
  shows "foldl (\<lambda>acc res.
        \<lparr>total_orgTotalTokensUsed =
           js_add (total_orgTotalTokensUsed acc) (orgTotalTokensUsed res),
         total_totalAllowance = js_add (total_totalAllowance acc) (totalAllowance res),
         totalRemaining =
           js_add (totalRemaining acc)
             (max 0 (js_sub (totalAllowance res) (orgTotalTokensUsed res)))\<rparr>) acc xs =
   \<lparr>total_orgTotalTokensUsed = total_orgTotalTokensUsed acc + sum_list (map orgTotalTokensUsed xs),
    total_totalAllowance = total_totalAllowance acc + sum_list (map totalAllowance xs),
    totalRemaining = totalRemaining acc + sum_list (map remaining xs)\<rparr>"
  using assms
proof (induction xs arbitrary: acc)
  case Nil
  show ?case by simp
next
  case (Cons x xs)
  let ?u = "orgTotalTokensUsed x" and ?a = "totalAllowance x"
  note m = magnitude_Cons [of x xs] magnitude_nonneg [of xs]
  have s: "js_sub ?a ?u = ?a - ?u"
    using Cons.prems(3) m by (intro js_sub_exact) linarith
  have u: "js_add (total_orgTotalTokensUsed acc) ?u = total_orgTotalTokensUsed acc + ?u"
    using Cons.prems(1) m by (intro js_add_exact) linarith
  have a: "js_add (total_totalAllowance acc) ?a = total_totalAllowance acc + ?a"
    using Cons.prems(2) m by (intro js_add_exact) linarith
  have r: "js_add (totalRemaining acc) (max 0 (?a - ?u)) = totalRemaining acc + max 0 (?a - ?u)"
    using Cons.prems(3) m by (intro js_add_exact) linarith
  let ?acc = "\<lparr>total_orgTotalTokensUsed = total_orgTotalTokensUsed acc + ?u,
      total_totalAllowance = total_totalAllowance acc + ?a,
      totalRemaining = totalRemaining acc + max 0 (?a - ?u)\<rparr>"
  have b: "\<bar>total_orgTotalTokensUsed ?acc\<bar> + magnitude xs \<le> 9007199254740992"
    "\<bar>total_totalAllowance ?acc\<bar> + magnitude xs \<le> 9007199254740992"
    "\<bar>totalRemaining ?acc\<bar> + magnitude xs \<le> 9007199254740992"
    using Cons.prems m by simp_all linarith+
  show ?case
    using Cons.IH [OF b] by (simp add: s u a r remaining_def add.assoc)
qed

lemma compute_totals_sums:
  assumes "magnitude (filter isApiUsageData results) \<le> 9007199254740992"
  shows "compute_totals results =
   \<lparr>total_orgTotalTokensUsed = sum_list (map orgTotalTokensUsed (filter isApiUsageData results)),
    total_totalAllowance = sum_list (map totalAllowance (filter isApiUsageData results)),
    totalRemaining = sum_list (map remaining (filter isApiUsageData results))\<rparr>"
  unfolding compute_totals_def validResults_def
  by (subst foldl_totals) (use assms in \<open>simp_all add: emptyTotals_def\<close>)

lemma compute_totals_valid_only:
  "compute_totals (filter isApiUsageData results) = compute_totals results"
  by (simp add: compute_totals_def validResults_def)

lemmas example_results = usage_A_def failure_B_def usage_C_def usage_D_def

lemmas aggregate_defs = sortedValid_def sort_by_def validResults_def isApiUsageData_def
  has_error_def remaining_def



text \<open>
  C2, as the specification states it, fails: the totals are added up as doubles, and a sum
  beyond \<open>2^53\<close> is rounded. For two Success entries with \<open>2^53\<close> and 1 tokens used
  the total is \<open>2^53\<close>, not their sum.
\<close>

theorem aggregate_totals_round_beyond_2_53:
  "total_orgTotalTokensUsed (totals (aggregate 0 2 [big_used, one_used])) = 9007199254740992 \<and>
   sum_list (map orgTotalTokensUsed (filter isApiUsageData [big_used, one_used])) =
     9007199254740993"
proof -
  have v: "validResults [big_used, one_used] = [big_used, one_used]"
    by (simp add: validResults_def isApiUsageData_def has_error_def big_used_def one_used_def)
  have a: "js_add 0 9007199254740992 = 9007199254740992"
    by (simp add: js_add_exact)
  have b: "js_add 9007199254740992 1 = 9007199254740992"
    by (simp add: js_add_def round_double_2_53_plus_1)
  have "total_orgTotalTokensUsed (compute_totals [big_used, one_used]) = 9007199254740992"
    unfolding compute_totals_def v
    by (simp add: emptyTotals_def big_used_def one_used_def a b)
  moreover have "filter isApiUsageData [big_used, one_used] = [big_used, one_used]"
    using v by (simp add: validResults_def)
  ultimately show ?thesis
    by (simp add: aggregate_def big_used_def one_used_def)
qed

text \<open>
  C2, amended. The totals of the report are the exact sums over the Success entries of
  \<^verbatim>\<open>orgTotalTokensUsed\<close>, of \<^verbatim>\<open>totalAllowance\<close> and of
  \<open>max(0, totalAllowance - orgTotalTokensUsed)\<close> when the magnitudes of the token counts of
  the Success entries add up to at most \<open>2^53\<close>. In every case they are the totals of the
  report built from the Success entries alone, so Failure entries contribute to none of
  them.
\<close>

theorem aggregate_totals:
  "(sum_list (map (\<lambda>r. \<bar>orgTotalTokensUsed r\<bar> + \<bar>totalAllowance r\<bar>)
       (filter isApiUsageData results)) \<le> 9007199254740992 \<longrightarrow>
    totals (aggregate beijingTime keyCount results) =
      \<lparr>total_orgTotalTokensUsed =
         sum_list (map orgTotalTokensUsed (filter isApiUsageData results)),
       total_totalAllowance = sum_list (map totalAllowance (filter isApiUsageData results)),
       totalRemaining =
         sum_list (map (\<lambda>r. max 0 (totalAllowance r - orgTotalTokensUsed r))
           (filter isApiUsageData results))\<rparr>) \<and>
   totals (aggregate beijingTime keyCount results) =
     totals (aggregate beijingTime keyCount (filter isApiUsageData results)) \<and>
   (9007199254740992 :: int) = 2 ^ 53"
proof -
  have r: "remaining = (\<lambda>r. max 0 (totalAllowance r - orgTotalTokensUsed r))"
    by (simp add: fun_eq_iff remaining_def)
  have "totals (aggregate beijingTime keyCount results) =
      \<lparr>total_orgTotalTokensUsed =
         sum_list (map orgTotalTokensUsed (filter isApiUsageData results)),
       total_totalAllowance = sum_list (map totalAllowance (filter isApiUsageData results)),
       totalRemaining =
         sum_list (map (\<lambda>r. max 0 (totalAllowance r - orgTotalTokensUsed r))
           (filter isApiUsageData results))\<rparr>"
    if "sum_list (map (\<lambda>r. \<bar>orgTotalTokensUsed r\<bar> + \<bar>totalAllowance r\<bar>)
       (filter isApiUsageData results)) \<le> 9007199254740992"
    using compute_totals_sums [of results] that
    by (simp add: aggregate_def magnitude_def r)
  moreover have "totals (aggregate beijingTime keyCount results) =
     totals (aggregate beijingTime keyCount (filter isApiUsageData results))"
    by (simp add: aggregate_def compute_totals_valid_only)
  moreover have "(9007199254740992 :: int) = 2 ^ 53"
    by simp
  ultimately show ?thesis
    by blast
qed

theorem aggregate_totals_witness:
  "totals (aggregate 0 3 [usage_A, failure_B, usage_C]) =
     \<lparr>total_orgTotalTokensUsed = 600, total_totalAllowance = 1000, totalRemaining = 400\<rparr>"
proof -
  have f: "filter isApiUsageData [usage_A, failure_B, usage_C] = [usage_A, usage_C]"
    by (simp add: aggregate_defs example_results)
  have "sum_list (map (\<lambda>r. \<bar>orgTotalTokensUsed r\<bar> + \<bar>totalAllowance r\<bar>)
       (filter isApiUsageData [usage_A, failure_B, usage_C])) \<le> 9007199254740992"
    unfolding f by (simp add: example_results)
  with aggregate_totals [of "[usage_A, failure_B, usage_C]" 0 3]
  have "totals (aggregate 0 3 [usage_A, failure_B, usage_C]) =
      \<lparr>total_orgTotalTokensUsed =
         sum_list (map orgTotalTokensUsed (filter isApiUsageData [usage_A, failure_B, usage_C])),
       total_totalAllowance =
         sum_list (map totalAllowance (filter isApiUsageData [usage_A, failure_B, usage_C])),
       totalRemaining =
         sum_list (map (\<lambda>r. max 0 (totalAllowance r - orgTotalTokensUsed r))
           (filter isApiUsageData [usage_A, failure_B, usage_C]))\<rparr>"
    by blast
  then show ?thesis
    unfolding f by (simp add: example_results)
qed

subsection \<open>The report and its cache\<close>

lemma zip_map_self:
  "map (\<lambda>(k, out). g k out) (zip ks (map p ks)) = map (\<lambda>k. g k (p k)) ks"
  by (induction ks) simp_all

lemma getAggregatedData_eq:
  "getAggregatedData kv now upstream =
     Some (if getAllKeys kv = [] then (emptyResponse (getBeijingTime now), [])
           else (aggregate (getBeijingTime now) (length (getAllKeys kv))
                   (map (\<lambda>k. fst (processor upstream k)) (getAllKeys kv)),
                 Scheduler (schedule 10 100 (getAllKeys kv)) #
                   map (\<lambda>k. Worker (ak_id k) (snd (processor upstream k))) (getAllKeys kv)))"
proof -
  have b: "batchProcess (getAllKeys kv) (processor upstream) 10 100 =
      Some (map (processor upstream) (getAllKeys kv), schedule 10 100 (getAllKeys kv))"
    by (rule batchProcess_returns) simp
  show ?thesis
    unfolding getAggregatedData_def Let_def b
    by (simp add: zip_map_self [of "\<lambda>k out. Worker (ak_id k) (snd out)"] comp_def)
qed

lemma getAllKeys_cache [simp]: "getAllKeys (kv\<lparr>cache_data := c\<rparr>) = getAllKeys kv"
  by (simp add: getAllKeys_def kv_list_def)

lemma getAggregatedData_cache [simp]:
  "getAggregatedData (kv\<lparr>cache_data := c\<rparr>) now upstream = getAggregatedData kv now upstream"
  by (simp add: getAggregatedData_def)





subsection \<open>The course of a fetch\<close>

lemma fetch_at:
  assumes "n < 3" "\<forall>m<n. unauthorized (server m)"
    "\<not> (unauthorized (server n) \<and> n < 2)"
  shows "fetchApiKeyData i key 0 server =
    (fst (fetchApiKeyData i key n (\<lambda>j. server (j + n))), take (2 * n + 1) (full_trace key))"
  using fetch_course [OF assms, of i key] by (simp add: prod_eq_iff)

lemma not_unauthorized_other:
  "r = HttpResponse st b \<Longrightarrow> st \<noteq> 401 \<Longrightarrow> \<not> unauthorized r"
  by (simp add: unauthorized_def)

lemma not_unauthorized_NetworkError [simp]: "\<not> unauthorized NetworkError"
  by (simp add: unauthorized_def)

lemma not_unauthorized_ok: "r = HttpResponse st b \<Longrightarrow> ok st \<Longrightarrow> \<not> unauthorized r"
  by (auto simp: unauthorized_def)

lemma fetch_401_persists:
  assumes "\<forall>m<3. unauthorized (server m)"
  shows "fetchApiKeyData i key 0 server =
    (ApiErrorData i (maskApiKey key) ''HTTP 401'', full_trace key)"
proof -
  from assms have "unauthorized (server 2)" by simp
  then obtain b where b: "server 2 = HttpResponse 401 b"
    by (auto dest: unauthorizedE)
  have "fetchApiKeyData i key 2 (\<lambda>j. server (j + 2)) =
      (ApiErrorData i (maskApiKey key) (''HTTP '' @ decimal 401), [Request key])"
    using b by (intro fetch_http_error [where b = b]) (simp_all add: maxRetries_def numeral_2_eq_2)
  moreover have "fetchApiKeyData i key 0 server =
      (fst (fetchApiKeyData i key 2 (\<lambda>j. server (j + 2))), take (2 * 2 + 1) (full_trace key))"
    using assms by (intro fetch_at) simp_all
  ultimately show ?thesis
    by (simp add: decimal_401 full_trace_def)
qed

lemma fetch_other_status:
  assumes "n < 3" "\<forall>m<n. unauthorized (server m)"
    "server n = HttpResponse st b" "\<not> ok st" "st \<noteq> 401"
  shows "fetchApiKeyData i key 0 server =
    (ApiErrorData i (maskApiKey key) (''HTTP '' @ decimal st), take (2 * n + 1) (full_trace key))"
proof -
  have "fetchApiKeyData i key n (\<lambda>j. server (j + n)) =
      (ApiErrorData i (maskApiKey key) (''HTTP '' @ decimal st), [Request key])"
    by (rule fetch_http_error [where b = b]) (simp_all add: assms)
  moreover have "fetchApiKeyData i key 0 server =
      (fst (fetchApiKeyData i key n (\<lambda>j. server (j + n))), take (2 * n + 1) (full_trace key))"
    using assms not_unauthorized_other [OF assms(3) assms(5)] by (intro fetch_at) simp_all
  ultimately show ?thesis by simp
qed

lemma fetch_transport_failure:
  assumes "n < 3" "\<forall>m<n. unauthorized (server m)"
    "server n = NetworkError \<or> (\<exists>st. ok st \<and> server n = HttpResponse st NotJson)"
  shows "fetchApiKeyData i key 0 server =
    (ApiErrorData i (maskApiKey key) ''Failed to fetch'', take (2 * n + 1) (full_trace key))"
proof -
  have "fetchApiKeyData i key n (\<lambda>j. server (j + n)) =
      (ApiErrorData i (maskApiKey key) ''Failed to fetch'', [Request key])"
    using assms(3) by (auto intro: fetch_NetworkError fetch_bad_body)
  moreover have "\<not> unauthorized (server n)"
    using assms(3) by (auto simp: not_unauthorized_ok)
  then have "fetchApiKeyData i key 0 server =
      (fst (fetchApiKeyData i key n (\<lambda>j. server (j + n))), take (2 * n + 1) (full_trace key))"
    using assms by (intro fetch_at) simp_all
  ultimately show ?thesis by simp
qed

lemma fetch_success_at:
  assumes "n < 3" "\<forall>m<n. unauthorized (server m)"
    "server n = HttpResponse st (JsonValue a)" "ok st"
    "usage a = Some u" "usage_standard u = Some sd"
  shows "fetchApiKeyData i key 0 server =
    (ApiUsageData i (maskApiKey key) (formatDate (usage_startDate u))
       (formatDate (usage_endDate u)) (or_zero (std_orgTotalTokensUsed sd))
       (or_zero (std_totalAllowance sd)) (or_zero (std_usedRatio sd)),
     take (2 * n + 1) (full_trace key))"
proof -
  have "fetchApiKeyData i key n (\<lambda>j. server (j + n)) =
      (ApiUsageData i (maskApiKey key) (formatDate (usage_startDate u))
         (formatDate (usage_endDate u)) (or_zero (std_orgTotalTokensUsed sd))
         (or_zero (std_totalAllowance sd)) (or_zero (std_usedRatio sd)), [Request key])"
    by (rule fetch_success [where st = st and apiData = a]) (simp_all add: assms)
  moreover have "fetchApiKeyData i key 0 server =
      (fst (fetchApiKeyData i key n (\<lambda>j. server (j + n))), take (2 * n + 1) (full_trace key))"
    using assms not_unauthorized_ok [OF assms(3) assms(4)] by (intro fetch_at) simp_all
  ultimately show ?thesis by simp
qed

lemma fetch_invalid_at:
  assumes "n < 3" "\<forall>m<n. unauthorized (server m)"
    "server n = HttpResponse st (JsonValue a)" "ok st"
    "usage a = None \<or> (\<exists>u. usage a = Some u \<and> usage_standard u = None)"
  shows "fetchApiKeyData i key 0 server =
    (ApiErrorData i (maskApiKey key) ''Invalid API response'',
     take (2 * n + 1) (full_trace key))"
proof -
  have "fetchApiKeyData i key n (\<lambda>j. server (j + n)) =
      (ApiErrorData i (maskApiKey key) ''Invalid API response'', [Request key])"
    by (rule fetch_invalid [where st = st and apiData = a]) (simp_all add: assms)
  moreover have "fetchApiKeyData i key 0 server =
      (fst (fetchApiKeyData i key n (\<lambda>j. server (j + n))), take (2 * n + 1) (full_trace key))"
    using assms not_unauthorized_ok [OF assms(3) assms(4)] by (intro fetch_at) simp_all
  ultimately show ?thesis by simp
qed

lemma requests_in_trace:
  "n < 3 \<Longrightarrow> count_list (take (2 * n + 1) (full_trace key)) (Request key) = n + 1"
proof -
  assume "n < 3"
  then consider "n = 0" | "n = 1" | "n = 2" by linarith
  then show ?thesis
    by cases (simp_all add: full_trace_def)
qed

lemma trace_cases:
  "\<exists>n<3. snd (fetchApiKeyData i key 0 server) = take (2 * n + 1) (full_trace key)"
proof -
  obtain n where "n < 3" "\<forall>m<n. unauthorized (server m)"
    "\<not> (unauthorized (server n) \<and> n < 2)"
    using leading_401s [of server] by blast
  then show ?thesis
    using fetch_at [of n server i key] by (intro exI [of _ n]) simp
qed

text \<open>
  C3. A call of \<^verbatim>\<open>fetchApiKeyData\<close> makes one, two or three requests: its course is a prefix
  of three requests with a delay of 1000 ms after the first and of 2000 ms after the
  second, and it goes on exactly as long as the reply is a 401 and fewer than two retries
  were made. When all three replies are 401 the result is the Failure \<^verbatim>\<open>HTTP 401\<close>. A reply
  with another status outside 200 to 299 ends the call with the Failure \<^verbatim>\<open>HTTP\<close> and the
  status in decimal. A rejected request or a body that is not JSON ends the call, with no
  further request, with the Failure whose message is the fixed text \<^verbatim>\<open>Failed to fetch\<close>.
  Two replies 401 followed by a 2xx reply whose body has the usage record give a Success
  after exactly three requests.
\<close>

theorem fetchApiKeyData_retry_policy:
  "(\<exists>n<3. snd (fetchApiKeyData i key 0 server) = take (2 * n + 1) (full_trace key)) \<and>
   (\<forall>n<3. count_list (take (2 * n + 1) (full_trace key)) (Request key) = n + 1) \<and>
   (\<forall>n<3. (\<forall>m<n. unauthorized (server m)) \<and> \<not> (unauthorized (server n) \<and> n < 2) \<longrightarrow>
      snd (fetchApiKeyData i key 0 server) = take (2 * n + 1) (full_trace key)) \<and>
   ((\<forall>m<3. unauthorized (server m)) \<longrightarrow>
      fetchApiKeyData i key 0 server =
        (ApiErrorData i (maskApiKey key) ''HTTP 401'', full_trace key)) \<and>
   (\<forall>n<3. \<forall>st b. (\<forall>m<n. unauthorized (server m)) \<and> server n = HttpResponse st b \<and>
        \<not> ok st \<and> st \<noteq> 401 \<longrightarrow>
      fetchApiKeyData i key 0 server =
        (ApiErrorData i (maskApiKey key) (''HTTP '' @ decimal st),
         take (2 * n + 1) (full_trace key))) \<and>
   (\<forall>n<3. (\<forall>m<n. unauthorized (server m)) \<and>
        (server n = NetworkError \<or> (\<exists>st. ok st \<and> server n = HttpResponse st NotJson)) \<longrightarrow>
      fetchApiKeyData i key 0 server =
        (ApiErrorData i (maskApiKey key) ''Failed to fetch'',
         take (2 * n + 1) (full_trace key))) \<and>
   (\<forall>st a u sd. unauthorized (server 0) \<and> unauthorized (server 1) \<and>
        server 2 = HttpResponse st (JsonValue a) \<and> ok st \<and>
        usage a = Some u \<and> usage_standard u = Some sd \<longrightarrow>
      isApiUsageData (fst (fetchApiKeyData i key 0 server)) \<and>
      snd (fetchApiKeyData i key 0 server) = full_trace key)"
proof -
  have c1: "\<exists>n<3. snd (fetchApiKeyData i key 0 server) = take (2 * n + 1) (full_trace key)"
    by (rule trace_cases)
  have c2: "\<forall>n<3. count_list (take (2 * n + 1) (full_trace key)) (Request key) = n + 1"
    using requests_in_trace [of _ key] by blast
  have c3: "\<forall>n<3. (\<forall>m<n. unauthorized (server m)) \<and>
      \<not> (unauthorized (server n) \<and> n < 2) \<longrightarrow>
      snd (fetchApiKeyData i key 0 server) = take (2 * n + 1) (full_trace key)"
    using fetch_at [of _ server i key] by auto
  have c4: "(\<forall>m<3. unauthorized (server m)) \<longrightarrow>
      fetchApiKeyData i key 0 server =
        (ApiErrorData i (maskApiKey key) ''HTTP 401'', full_trace key)"
    using fetch_401_persists [of server i key] by blast
  have c5: "\<forall>n<3. \<forall>st b. (\<forall>m<n. unauthorized (server m)) \<and> server n = HttpResponse st b \<and>
        \<not> ok st \<and> st \<noteq> 401 \<longrightarrow>
      fetchApiKeyData i key 0 server =
        (ApiErrorData i (maskApiKey key) (''HTTP '' @ decimal st),
         take (2 * n + 1) (full_trace key))"
    using fetch_other_status [of _ server _ _ i key] by blast
  have c6: "\<forall>n<3. (\<forall>m<n. unauthorized (server m)) \<and>
        (server n = NetworkError \<or> (\<exists>st. ok st \<and> server n = HttpResponse st NotJson)) \<longrightarrow>
      fetchApiKeyData i key 0 server =
        (ApiErrorData i (maskApiKey key) ''Failed to fetch'',
         take (2 * n + 1) (full_trace key))"
    using fetch_transport_failure [of _ server i key] by blast
  have c7: "\<forall>st a u sd. unauthorized (server 0) \<and> unauthorized (server 1) \<and>
        server 2 = HttpResponse st (JsonValue a) \<and> ok st \<and>
        usage a = Some u \<and> usage_standard u = Some sd \<longrightarrow>
      isApiUsageData (fst (fetchApiKeyData i key 0 server)) \<and>
      snd (fetchApiKeyData i key 0 server) = full_trace key"
  proof (intro allI impI)
    fix st a u sd
    assume h: "unauthorized (server 0) \<and> unauthorized (server 1) \<and>
        server 2 = HttpResponse st (JsonValue a) \<and> ok st \<and>
        usage a = Some u \<and> usage_standard u = Some sd"
    then have "\<forall>m<2. unauthorized (server m)"
      by (auto simp: less_Suc_eq numeral_2_eq_2)
    then show "isApiUsageData (fst (fetchApiKeyData i key 0 server)) \<and>
        snd (fetchApiKeyData i key 0 server) = full_trace key"
      using fetch_success_at [of 2 server st a u sd i key] h
      by (simp add: isApiUsageData_def has_error_def full_trace_def)
  qed
  show ?thesis
    by (intro conjI c1 c2 c3 c4 c5 c6 c7)
qed

theorem fetchApiKeyData_retry_policy_witness:
  "fetchApiKeyData ''k1'' ''sk-abcdefghijkl'' 0 refusing =
     (ApiErrorData ''k1'' (maskApiKey ''sk-abcdefghijkl'') ''HTTP 401'',
      full_trace ''sk-abcdefghijkl'') \<and>
   fetchApiKeyData ''k1'' ''sk-abcdefghijkl'' 0 unreachable =
     (ApiErrorData ''k1'' (maskApiKey ''sk-abcdefghijkl'') ''Failed to fetch'',
      [Request ''sk-abcdefghijkl'']) \<and>
   fetchApiKeyData ''k1'' ''sk-abcdefghijkl'' 0 throttled =
     (ApiErrorData ''k1'' (maskApiKey ''sk-abcdefghijkl'') ''HTTP 503'',
      [Request ''sk-abcdefghijkl'', Sleep 1000, Request ''sk-abcdefghijkl'']) \<and>
   isApiUsageData (fst (fetchApiKeyData ''k1'' ''sk-abcdefghijkl'' 0 recovering)) \<and>
   snd (fetchApiKeyData ''k1'' ''sk-abcdefghijkl'' 0 recovering) =
     [Request ''sk-abcdefghijkl'', Sleep 1000, Request ''sk-abcdefghijkl'', Sleep 2000,
      Request ''sk-abcdefghijkl'']"
proof -
  let ?k = "''sk-abcdefghijkl''"
  note policy = fetchApiKeyData_retry_policy [where i = "''k1''" and key = ?k]
  note persists = policy [THEN conjunct2, THEN conjunct2, THEN conjunct2, THEN conjunct1,
      rule_format]
  note other = policy [THEN conjunct2, THEN conjunct2, THEN conjunct2, THEN conjunct2,
      THEN conjunct1, rule_format]
  note transport = policy [THEN conjunct2, THEN conjunct2, THEN conjunct2, THEN conjunct2,
      THEN conjunct2, THEN conjunct1, rule_format]
  note success = policy [THEN conjunct2, THEN conjunct2, THEN conjunct2, THEN conjunct2,
      THEN conjunct2, THEN conjunct2, rule_format]
  have d: "decimal 503 = ''503''"
    by (simp add: decimal.simps digit_def)
  have "fetchApiKeyData ''k1'' ?k 0 refusing =
      (ApiErrorData ''k1'' (maskApiKey ?k) ''HTTP 401'', full_trace ?k)"
    by (rule persists) (simp add: refusing_def unauthorized_def)
  moreover have "fetchApiKeyData ''k1'' ?k 0 unreachable =
      (ApiErrorData ''k1'' (maskApiKey ?k) ''Failed to fetch'', take (2 * 0 + 1) (full_trace ?k))"
    by (rule transport) (simp_all add: unreachable_def)
  moreover have "fetchApiKeyData ''k1'' ?k 0 throttled =
      (ApiErrorData ''k1'' (maskApiKey ?k) (''HTTP '' @ decimal 503),
       take (2 * 1 + 1) (full_trace ?k))"
    by (rule other [where b = NotJson]) (simp_all add: throttled_def unauthorized_def ok_def)
  moreover have "isApiUsageData (fst (fetchApiKeyData ''k1'' ?k 0 recovering)) \<and>
      snd (fetchApiKeyData ''k1'' ?k 0 recovering) = full_trace ?k"
    by (rule success [where st = 200 and a = good_response and u = good_usage
          and sd = good_standard])
      (simp add: recovering_def unauthorized_def ok_def good_body_def good_response_def
        good_usage_def)
  ultimately show ?thesis
    by (simp add: full_trace_def d)
qed

text \<open>
  C4 fails on the code at one 2xx reply, the one whose body is the JSON value \<^verbatim>\<open>null\<close>. That
  body parses and has no \<^verbatim>\<open>usage.standard\<close>, so the claim asks for the Failure
  \<^verbatim>\<open>Invalid API response\<close>. The code returns the Failure \<^verbatim>\<open>Failed to fetch\<close>: the destructuring
  \<^verbatim>\<open>const { usage } = apiData\<close> throws on \<^verbatim>\<open>null\<close> inside the \<^verbatim>\<open>try\<close>, before the guard
  \<^verbatim>\<open>!usage?.standard\<close> that is there for a body without the record. A body without the field
  \<^verbatim>\<open>usage\<close> reaches the guard and gives \<^verbatim>\<open>Invalid API response\<close>, as the claim says.
\<close>

theorem null_body_is_fetch_failure:
  "ok 200 \<and> null_body 0 = HttpResponse 200 JsonNull \<and>
   fst (fetchApiKeyData ''k1'' ''sk-abcdefghijkl'' 0 null_body) =
     ApiErrorData ''k1'' ''sk-a...ijkl'' ''Failed to fetch'' \<and>
   fst (fetchApiKeyData ''k1'' ''sk-abcdefghijkl'' 0 null_body) \<noteq>
     ApiErrorData ''k1'' ''sk-a...ijkl'' ''Invalid API response'' \<and>
   fst (fetchApiKeyData ''k1'' ''sk-abcdefghijkl'' 0 no_usage) =
     ApiErrorData ''k1'' ''sk-a...ijkl'' ''Invalid API response''"
proof -
  have "fetchApiKeyData ''k1'' ''sk-abcdefghijkl'' 0 null_body =
      (ApiErrorData ''k1'' (maskApiKey ''sk-abcdefghijkl'') ''Failed to fetch'',
       [Request ''sk-abcdefghijkl''])"
    by (rule fetch_bad_body [where st = 200 and b = JsonNull])
      (simp_all add: null_body_def ok_def)
  moreover have "fetchApiKeyData ''k1'' ''sk-abcdefghijkl'' 0 no_usage =
      (ApiErrorData ''k1'' (maskApiKey ''sk-abcdefghijkl'') ''Invalid API response'',
       take (2 * 0 + 1) (full_trace ''sk-abcdefghijkl''))"
    by (rule fetch_invalid_at [where st = 200 and a = "\<lparr>usage = None\<rparr>"])
      (simp_all add: no_usage_def ok_def)
  ultimately show ?thesis
    by (simp add: mask_defs null_body_def ok_def)
qed

text \<open>
  The other 2xx replies. When the body is a JSON value other than \<^verbatim>\<open>null\<close>, the fetch returns
  the Failure \<^verbatim>\<open>Invalid API response\<close> when \<^verbatim>\<open>usage\<close> or \<^verbatim>\<open>usage.standard\<close> is absent, and
  otherwise a Success whose dates are \<^verbatim>\<open>formatDate\<close> of the upstream timestamps and whose
  three numbers are the upstream fields, 0 when the field is absent (a falsy number is 0
  itself). \<^verbatim>\<open>formatDate\<close> gives \<^verbatim>\<open>N/A\<close> for an absent timestamp, \<^verbatim>\<open>Invalid Date\<close> for one
  outside the range of valid dates, and otherwise the UTC date as year, month and day joined
  by hyphens, the month and the day on two digits. The reply may be the first one or follow
  one or two 401 replies.
\<close>

theorem fetchApiKeyData_2xx_mapping:
  "(\<forall>n<3. \<forall>st a. (\<forall>m<n. unauthorized (server m)) \<and>
        server n = HttpResponse st (JsonValue a) \<and> ok st \<and>
        (usage a = None \<or> (\<exists>u. usage a = Some u \<and> usage_standard u = None)) \<longrightarrow>
      fst (fetchApiKeyData i key 0 server) =
        ApiErrorData i (maskApiKey key) ''Invalid API response'') \<and>
   (\<forall>n<3. \<forall>st a u sd. (\<forall>m<n. unauthorized (server m)) \<and>
        server n = HttpResponse st (JsonValue a) \<and> ok st \<and>
        usage a = Some u \<and> usage_standard u = Some sd \<longrightarrow>
      fst (fetchApiKeyData i key 0 server) =
        ApiUsageData i (maskApiKey key) (formatDate (usage_startDate u))
          (formatDate (usage_endDate u)) (or_zero (std_orgTotalTokensUsed sd))
          (or_zero (std_totalAllowance sd)) (or_zero (std_usedRatio sd))) \<and>
   formatDate None = ''N/A'' \<and>
   (\<forall>t. \<bar>t\<bar> \<le> 8640000000000000 \<longrightarrow>
      formatDate (Some t) =
        iso_year (getFullYear t) @ ''-'' @ pad_num 2 (getMonth t + 1) @ ''-'' @
          pad_num 2 (getDate t)) \<and>
   (\<forall>t. 8640000000000000 < \<bar>t\<bar> \<longrightarrow> formatDate (Some t) = ''Invalid Date'') \<and>
   or_zero (None :: int option) = 0 \<and> (\<forall>v :: int. or_zero (Some v) = v) \<and>
   or_zero (None :: real option) = 0 \<and> (\<forall>v :: real. or_zero (Some v) = v)"
proof -
  have c1: "\<forall>n<3. \<forall>st a. (\<forall>m<n. unauthorized (server m)) \<and>
        server n = HttpResponse st (JsonValue a) \<and> ok st \<and>
        (usage a = None \<or> (\<exists>u. usage a = Some u \<and> usage_standard u = None)) \<longrightarrow>
      fst (fetchApiKeyData i key 0 server) =
        ApiErrorData i (maskApiKey key) ''Invalid API response''"
  proof (intro allI impI)
    fix n st a
    assume "n < 3" and h: "(\<forall>m<n. unauthorized (server m)) \<and>
        server n = HttpResponse st (JsonValue a) \<and> ok st \<and>
        (usage a = None \<or> (\<exists>u. usage a = Some u \<and> usage_standard u = None))"
    then show "fst (fetchApiKeyData i key 0 server) =
        ApiErrorData i (maskApiKey key) ''Invalid API response''"
      using fetch_invalid_at [of n server st a i key] by simp
  qed
  have c2: "\<forall>n<3. \<forall>st a u sd. (\<forall>m<n. unauthorized (server m)) \<and>
        server n = HttpResponse st (JsonValue a) \<and> ok st \<and>
        usage a = Some u \<and> usage_standard u = Some sd \<longrightarrow>
      fst (fetchApiKeyData i key 0 server) =
        ApiUsageData i (maskApiKey key) (formatDate (usage_startDate u))
          (formatDate (usage_endDate u)) (or_zero (std_orgTotalTokensUsed sd))
          (or_zero (std_totalAllowance sd)) (or_zero (std_usedRatio sd))"
  proof (intro allI impI)
    fix n st a u sd
    assume "n < 3" and h: "(\<forall>m<n. unauthorized (server m)) \<and>
        server n = HttpResponse st (JsonValue a) \<and> ok st \<and>
        usage a = Some u \<and> usage_standard u = Some sd"
    then show "fst (fetchApiKeyData i key 0 server) =
        ApiUsageData i (maskApiKey key) (formatDate (usage_startDate u))
          (formatDate (usage_endDate u)) (or_zero (std_orgTotalTokensUsed sd))
          (or_zero (std_totalAllowance sd)) (or_zero (std_usedRatio sd))"
      using fetch_success_at [of n server st a u sd i key] by simp
  qed
  have c3: "formatDate None = ''N/A''"
    by (rule formatDate_absent)
  have c4: "\<forall>t. \<bar>t\<bar> \<le> 8640000000000000 \<longrightarrow>
      formatDate (Some t) =
        iso_year (getFullYear t) @ ''-'' @ pad_num 2 (getMonth t + 1) @ ''-'' @
          pad_num 2 (getDate t)"
    using formatDate_valid by (simp add: iso_date_def)
  have c5: "\<forall>t. 8640000000000000 < \<bar>t\<bar> \<longrightarrow> formatDate (Some t) = ''Invalid Date''"
    using formatDate_invalid by blast
  have c6: "or_zero (None :: int option) = 0" "\<forall>v :: int. or_zero (Some v) = v"
    "or_zero (None :: real option) = 0" "\<forall>v :: real. or_zero (Some v) = v"
    by (simp_all add: or_zero_def)
  show ?thesis
    by (intro conjI c1 c2 c3 c4 c5 c6)
qed

theorem fetchApiKeyData_2xx_mapping_witness:
  "fst (fetchApiKeyData ''k1'' ''sk-abcdefghijkl'' 0 recovering) =
     ApiUsageData ''k1'' ''sk-a...ijkl'' ''2023-11-14'' ''N/A'' 100 500 0 \<and>
   fst (fetchApiKeyData ''k1'' ''sk-abcdefghijkl'' 0 no_usage) =
     ApiErrorData ''k1'' ''sk-a...ijkl'' ''Invalid API response'' \<and>
   formatDate (Some 8640000000000001) = ''Invalid Date''"
proof -
  let ?k = "''sk-abcdefghijkl''"
  note mapping = fetchApiKeyData_2xx_mapping [where i = "''k1''" and key = ?k]
  note invalid = mapping [THEN conjunct1, rule_format]
  note success = mapping [THEN conjunct2, THEN conjunct1, rule_format]
  note dates = mapping [THEN conjunct2, THEN conjunct2, THEN conjunct2, THEN conjunct1,
      rule_format]
  note out_of_range = mapping [THEN conjunct2, THEN conjunct2, THEN conjunct2,
      THEN conjunct2, THEN conjunct1, rule_format]
  have i: "iso_date 1700000000000 = ''2023-11-14''"
    by code_simp
  have "formatDate (Some 1700000000000) = ''2023-11-14''"
    using dates [of 1700000000000] i by (simp add: iso_date_def)
  moreover have "fst (fetchApiKeyData ''k1'' ?k 0 recovering) =
      ApiUsageData ''k1'' (maskApiKey ?k) (formatDate (usage_startDate good_usage))
        (formatDate (usage_endDate good_usage))
        (or_zero (std_orgTotalTokensUsed good_standard))
        (or_zero (std_totalAllowance good_standard)) (or_zero (std_usedRatio good_standard))"
    by (rule success [where n = 2 and st = 200 and a = good_response])
      (simp_all add: recovering_def unauthorized_def ok_def good_body_def good_response_def
        good_usage_def less_Suc_eq numeral_2_eq_2)
  moreover have "fst (fetchApiKeyData ''k1'' ?k 0 no_usage) =
      ApiErrorData ''k1'' (maskApiKey ?k) ''Invalid API response''"
    by (rule invalid [where n = 0 and st = 200 and a = "\<lparr>usage = None\<rparr>"])
      (simp_all add: no_usage_def ok_def)
  moreover have "formatDate (Some 8640000000000001) = ''Invalid Date''"
    by (rule out_of_range) simp
  moreover have "maskApiKey ?k = ''sk-a...ijkl''"
    by (simp add: mask_defs)
  ultimately show ?thesis
    by (simp add: good_usage_def good_standard_def or_zero_def formatDate_absent)
qed

lemma mask_at_4: "4 < length s \<Longrightarrow> maskApiKey s ! 4 = CHR ''.''"
  by (simp add: mask_defs nth_append)

lemma mask_without_dot:
  assumes long: "4 < length s" and nodot: "CHR ''.'' \<notin> set s"
  shows "\<not> sublist s (maskApiKey s)"
proof
  assume "sublist s (maskApiKey s)"
  then obtain ps ss where eq: "maskApiKey s = ps @ s @ ss"
    by (auto simp: sublist_def)
  have "length (maskApiKey s) \<le> length s + 2"
    using long by (simp add: mask_defs)
  then have "length ps + length s + length ss \<le> length s + 2"
    using eq by simp
  then have lps: "length ps \<le> 2"
    by simp
  have inside: "4 - length ps < length s"
    using long by arith
  have "(ps @ s @ ss) ! 4 = (s @ ss) ! (4 - length ps)"
    using lps by (simp add: nth_append)
  also have "\<dots> = s ! (4 - length ps)"
    using inside by (simp add: nth_append)
  finally have "s ! (4 - length ps) = CHR ''.''"
    using mask_at_4 [OF long] eq by simp
  with inside have "CHR ''.'' \<in> set s"
    by (metis nth_mem)
  with nodot show False ..
qed

lemma mask_fixed_point:
  "maskApiKey s = s \<longleftrightarrow>
     (length s = 7 \<and> drop 4 s = ''...'') \<or> (length s = 11 \<and> take 3 (drop 4 s) = ''...'')"
proof (cases "length s \<le> 8")
  case True
  show ?thesis
  proof
    assume fx: "maskApiKey s = s"
    then have e: "take 4 s @ ''...'' = s"
      using True by (simp add: mask_short)
    then have "length (take 4 s @ ''...'') = length s"
      by simp
    then have l: "length s = 7"
      by (simp split: if_splits add: min_def)
    have "drop 4 (take 4 s @ ''...'') = ''...''"
      using l by simp
    with e l show "(length s = 7 \<and> drop 4 s = ''...'') \<or>
        (length s = 11 \<and> take 3 (drop 4 s) = ''...'')"
      by simp
  next
    assume "(length s = 7 \<and> drop 4 s = ''...'') \<or>
        (length s = 11 \<and> take 3 (drop 4 s) = ''...'')"
    with True have l: "length s = 7" and d: "drop 4 s = ''...''"
      by auto
    have "maskApiKey s = take 4 s @ drop 4 s"
      using True d by (simp add: mask_short)
    then show "maskApiKey s = s"
      by simp
  qed
next
  case False
  then have long: "8 < length s" by simp
  show ?thesis
  proof
    assume fx: "maskApiKey s = s"
    have "length s = 11"
      using length_mask_long [OF long] fx by simp
    moreover have "take 3 (drop 4 (maskApiKey s)) = ''...''"
      using long by (simp add: mask_long)
    ultimately show "(length s = 7 \<and> drop 4 s = ''...'') \<or>
        (length s = 11 \<and> take 3 (drop 4 s) = ''...'')"
      using fx by simp
  next
    assume "(length s = 7 \<and> drop 4 s = ''...'') \<or>
        (length s = 11 \<and> take 3 (drop 4 s) = ''...'')"
    with long have l: "length s = 11" and d: "take 3 (drop 4 s) = ''...''"
      by auto
    have "drop 4 s = take 3 (drop 4 s) @ drop 3 (drop 4 s)"
      by (simp only: append_take_drop_id)
    then have "take 4 s @ drop 4 s = take 4 s @ take 3 (drop 4 s) @ drop 3 (drop 4 s)"
      by (simp only:)
    then have "s = take 4 s @ take 3 (drop 4 s) @ drop 3 (drop 4 s)"
      by (simp only: append_take_drop_id)
    also have "\<dots> = take 4 s @ ''...'' @ drop (length s - 4) s"
      using l d by simp
    also have "\<dots> = maskApiKey s"
      using long by (simp add: mask_long)
    finally show "maskApiKey s = s" ..
  qed
qed

text \<open>
  C8, as the specification states it, fails: the field \<^verbatim>\<open>key\<close> of the result can hold the raw
  secret. The secret \<^verbatim>\<open>abcd...efgh\<close> is its own mask, so the field is the secret itself; for
  the secret \<^verbatim>\<open>abc\<close> the field is \<^verbatim>\<open>abc...\<close>, which begins with the secret.
\<close>

theorem fetch_result_can_hold_raw_secret:
  "key' (fst (fetchApiKeyData ''k1'' ''abcd...efgh'' 0 unreachable)) = ''abcd...efgh'' \<and>
   sublist ''abc'' (key' (fst (fetchApiKeyData ''k2'' ''abc'' 0 unreachable)))"
proof -
  have "maskApiKey ''abcd...efgh'' = ''abcd...efgh''" "maskApiKey ''abc'' = ''abc...''"
    by (simp_all add: mask_defs)
  moreover have "sublist ''abc'' ''abc...''"
    by (rule prefix_imp_sublist) simp
  ultimately show ?thesis
    by (simp add: fetch_key)
qed

text \<open>
  C8, amended. The field \<^verbatim>\<open>key\<close> of every result of \<^verbatim>\<open>fetchApiKeyData\<close>, Success or Failure,
  is the mask of the secret, and the secret enters the result nowhere else: the result for
  any other secret, with the same id and the same replies, is the same result with the mask
  of that other secret in the field \<^verbatim>\<open>key\<close>. The field is the raw secret exactly when the
  secret is its own mask: four characters followed by \<^verbatim>\<open>...\<close>, with nothing or with four
  characters after them. The field does not contain the secret when the secret has more
  than four characters and no full stop among them.
\<close>

theorem fetchApiKeyData_key_is_mask:
  "key' (fst (fetchApiKeyData i key rc server)) = maskApiKey key \<and>
   (\<forall>other. fst (fetchApiKeyData i other rc server) =
      set_key (maskApiKey other) (fst (fetchApiKeyData i key rc server))) \<and>
   (key' (fst (fetchApiKeyData i key rc server)) = key \<longleftrightarrow>
      (length key = 7 \<and> drop 4 key = ''...'') \<or>
      (length key = 11 \<and> take 3 (drop 4 key) = ''...'')) \<and>
   (4 < length key \<and> CHR ''.'' \<notin> set key \<longrightarrow>
      \<not> sublist key (key' (fst (fetchApiKeyData i key rc server))))"
proof -
  have k: "key' (fst (fetchApiKeyData i key rc server)) = maskApiKey key"
    by (rule fetch_key)
  have c2: "\<forall>other. fst (fetchApiKeyData i other rc server) =
      set_key (maskApiKey other) (fst (fetchApiKeyData i key rc server))"
    using fetch_key_independent [of i _ rc server key] by blast
  have c3: "key' (fst (fetchApiKeyData i key rc server)) = key \<longleftrightarrow>
      (length key = 7 \<and> drop 4 key = ''...'') \<or>
      (length key = 11 \<and> take 3 (drop 4 key) = ''...'')"
    unfolding k by (rule mask_fixed_point)
  have c4: "4 < length key \<and> CHR ''.'' \<notin> set key \<longrightarrow>
      \<not> sublist key (key' (fst (fetchApiKeyData i key rc server)))"
    unfolding k using mask_without_dot [of key] by blast
  show ?thesis
    by (intro conjI k c2 c3 c4)
qed

theorem fetchApiKeyData_key_is_mask_witness:
  "key' (fst (fetchApiKeyData ''k1'' ''sk-abcdefghijkl'' 0 recovering)) = ''sk-a...ijkl'' \<and>
   fst (fetchApiKeyData ''k1'' ''zz-9876543210ab'' 0 recovering) =
     set_key ''zz-9...10ab'' (fst (fetchApiKeyData ''k1'' ''sk-abcdefghijkl'' 0 recovering)) \<and>
   key' (fst (fetchApiKeyData ''k1'' ''sk-abcdefghijkl'' 0 recovering)) \<noteq> ''sk-abcdefghijkl'' \<and>
   \<not> sublist ''sk-abcdefghijkl''
        (key' (fst (fetchApiKeyData ''k1'' ''sk-abcdefghijkl'' 0 recovering)))"
proof -
  note m = fetchApiKeyData_key_is_mask [of "''k1''" "''sk-abcdefghijkl''" 0 recovering]
  have e: "maskApiKey ''sk-abcdefghijkl'' = ''sk-a...ijkl''"
    "maskApiKey ''zz-9876543210ab'' = ''zz-9...10ab''"
    by (simp_all add: mask_defs)
  have c1: "key' (fst (fetchApiKeyData ''k1'' ''sk-abcdefghijkl'' 0 recovering)) = ''sk-a...ijkl''"
    using m [THEN conjunct1] e by simp
  have c2: "fst (fetchApiKeyData ''k1'' ''zz-9876543210ab'' 0 recovering) =
     set_key ''zz-9...10ab'' (fst (fetchApiKeyData ''k1'' ''sk-abcdefghijkl'' 0 recovering))"
    using m [THEN conjunct2, THEN conjunct1, rule_format, of "''zz-9876543210ab''"] e by simp
  have c3: "key' (fst (fetchApiKeyData ''k1'' ''sk-abcdefghijkl'' 0 recovering)) \<noteq> ''sk-abcdefghijkl''"
    using m [THEN conjunct2, THEN conjunct2, THEN conjunct1] by simp
  have c4: "\<not> sublist ''sk-abcdefghijkl''
        (key' (fst (fetchApiKeyData ''k1'' ''sk-abcdefghijkl'' 0 recovering)))"
    by (rule m [THEN conjunct2, THEN conjunct2, THEN conjunct2, rule_format]) simp
  show ?thesis
    by (intro conjI c1 c2 c3 c4)
qed

subsection \<open>The report read\<close>

lemma length_filter_mset_eq:
  "mset xs = mset ys \<Longrightarrow> length (filter P xs) = length (filter P ys)"
  by (metis mset_filter size_mset)

text \<open>
  C7. \<^verbatim>\<open>getAggregatedData\<close> returns, and the \<^verbatim>\<open>total_count\<close> of its report is the number of
  credentials read from the namespace. The report has one entry for each of them, the
  result of its fetch, so \<^verbatim>\<open>total_count\<close> counts the Success and the Failure entries
  together. With no credential the report has a count of 0, totals of 0 and no entry, and
  the run does nothing: no call of the scheduler and no request. With credentials the run
  is one call of the scheduler and one fetch for each credential.
\<close>

theorem getAggregatedData_total_count:
  "\<exists>rep acts. getAggregatedData kv now upstream = Some (rep, acts) \<and>
     total_count rep = length (getAllKeys kv) \<and>
     length (data rep) = length (getAllKeys kv) \<and>
     total_count rep =
       length (filter isApiUsageData (data rep)) + length (filter has_error (data rep)) \<and>
     mset (data rep) =
       mset (map (\<lambda>k. fst (fetchApiKeyData (ak_id k) (ak_key k) 0 (upstream k)))
         (getAllKeys kv)) \<and>
     (getAllKeys kv = [] \<longrightarrow>
        rep = \<lparr>update_time = formatDateTime (getBeijingTime now), total_count = 0,
               totals = \<lparr>total_orgTotalTokensUsed = 0, total_totalAllowance = 0,
                          totalRemaining = 0\<rparr>,
               data = []\<rparr> \<and>
        acts = []) \<and>
     (getAllKeys kv \<noteq> [] \<longrightarrow>
        acts = Scheduler (schedule 10 100 (getAllKeys kv)) #
          map (\<lambda>k. Worker (ak_id k)
                 (snd (fetchApiKeyData (ak_id k) (ak_key k) 0 (upstream k))))
            (getAllKeys kv))"
proof (cases "getAllKeys kv = []")
  case True
  then show ?thesis
    by (simp add: getAggregatedData_eq emptyResponse_def emptyTotals_def)
next
  case False
  let ?ks = "getAllKeys kv"
  let ?rs = "map (\<lambda>k. fst (processor upstream k)) ?ks"
  let ?rep = "aggregate (getBeijingTime now) (length ?ks) ?rs"
  have d: "data ?rep = sortedValid ?rs @ filter has_error ?rs"
    by (simp add: aggregate_def)
  have m: "mset (data ?rep) = mset ?rs"
    unfolding d by (rule mset_partition_results)
  have l: "length (data ?rep) = length ?ks"
    unfolding d length_partition_results by simp
  have e: "has_error = (\<lambda>r. \<not> isApiUsageData r)"
    by (simp add: fun_eq_iff isApiUsageData_def)
  have "length (filter isApiUsageData (data ?rep)) + length (filter has_error (data ?rep)) =
      length (data ?rep)"
    unfolding e by (rule sum_length_filter_compl)
  with l have c: "total_count ?rep =
      length (filter isApiUsageData (data ?rep)) + length (filter has_error (data ?rep))"
    by (simp add: aggregate_def)
  have t: "total_count ?rep = length ?ks"
    by (simp add: aggregate_def)
  from False show ?thesis
    unfolding getAggregatedData_eq
    using t l c m by (simp add: processor_def)
qed

theorem getAggregatedData_total_count_witness:
  "getAggregatedData empty_kv 0 example_upstream =
     Some (\<lparr>update_time = formatDateTime (getBeijingTime 0), total_count = 0,
             totals = \<lparr>total_orgTotalTokensUsed = 0, total_totalAllowance = 0,
                        totalRemaining = 0\<rparr>,
             data = []\<rparr>, []) \<and>
   (\<exists>rep acts. getAggregatedData example_kv 0 example_upstream = Some (rep, acts) \<and>
      total_count rep = 2 \<and> length (filter isApiUsageData (data rep)) = 1)"
proof -
  have e: "getAllKeys empty_kv = []"
    by (simp add: getAllKeys_def kv_list_def empty_kv_def)
  have k: "getAllKeys example_kv =
      [\<lparr>ak_id = ''A'', ak_key = ''sk-aaaaaaaaaaaa''\<rparr>,
       \<lparr>ak_id = ''B'', ak_key = ''sk-bbbbbbbbbbbb''\<rparr>]"
    by (simp add: getAllKeys_def kv_list_def list_limit_def example_kv_def)
  have a: "isApiUsageData (fst (fetchApiKeyData ''A'' ''sk-aaaaaaaaaaaa'' 0 recovering))"
    using fetch_success_at [of 2 recovering 200 good_response good_usage good_standard
        "''A''" "''sk-aaaaaaaaaaaa''"]
    by (simp add: recovering_def unauthorized_def ok_def good_body_def good_response_def
        good_usage_def less_Suc_eq numeral_2_eq_2 isApiUsageData_def has_error_def)
  have b: "\<not> isApiUsageData (fst (fetchApiKeyData ''B'' ''sk-bbbbbbbbbbbb'' 0 refusing))"
    using fetch_401_persists [of refusing "''B''" "''sk-bbbbbbbbbbbb''"]
    by (simp add: refusing_def unauthorized_def isApiUsageData_def has_error_def)
  from getAggregatedData_total_count [of empty_kv 0 example_upstream]
  obtain rep0 acts0 where "getAggregatedData empty_kv 0 example_upstream = Some (rep0, acts0)"
    and "getAllKeys empty_kv = [] \<longrightarrow>
        rep0 = \<lparr>update_time = formatDateTime (getBeijingTime 0), total_count = 0,
               totals = \<lparr>total_orgTotalTokensUsed = 0, total_totalAllowance = 0,
                          totalRemaining = 0\<rparr>,
               data = []\<rparr> \<and>
        acts0 = []"
    by blast
  with e have first: "getAggregatedData empty_kv 0 example_upstream =
     Some (\<lparr>update_time = formatDateTime (getBeijingTime 0), total_count = 0,
             totals = \<lparr>total_orgTotalTokensUsed = 0, total_totalAllowance = 0,
                        totalRemaining = 0\<rparr>,
             data = []\<rparr>, [])"
    by simp
  from getAggregatedData_total_count [of example_kv 0 example_upstream]
  obtain rep acts where r: "getAggregatedData example_kv 0 example_upstream = Some (rep, acts)"
    and c: "total_count rep = length (getAllKeys example_kv)"
    and m: "mset (data rep) =
       mset (map (\<lambda>k. fst (fetchApiKeyData (ak_id k) (ak_key k) 0 (example_upstream k)))
         (getAllKeys example_kv))"
    by blast
  have "length (filter isApiUsageData (data rep)) =
      length (filter isApiUsageData
        (map (\<lambda>k. fst (fetchApiKeyData (ak_id k) (ak_key k) 0 (example_upstream k)))
          (getAllKeys example_kv)))"
    using m by (rule length_filter_mset_eq)
  also have "\<dots> = 1"
    unfolding k using a b by (simp add: example_upstream_def)
  finally have "length (filter isApiUsageData (data rep)) = 1" .
  with r c k first show ?thesis
    by simp
qed


















end
